theory Spec2Isabelle
  imports Main "HOL-Library.Word"
begin

unbundle bit_operations_syntax

section \<open>The game state engine of game.c\<close>

text \<open>
  The engine keeps its state in global variables of type \<open>int8_t\<close> and \<open>uint8_t\<close>.
  Both are modelled as 8-bit words: an \<open>int8_t\<close> is read with \<open>sint\<close>, a
  \<open>uint8_t\<close> with \<open>uint\<close> or \<open>unat\<close>, and a conversion between the two leaves the
  word as it is. A comparison of C promotes both sides to \<open>int\<close>, so \<open>i < numAsteroids\<close>
  with \<open>uint8_t i\<close> is \<open>uint i < sint numAsteroids\<close>.

  The calls into the display, the terminal and the sound driver (\<open>new_frame\<close>,
  \<open>draw_frame\<close>, \<open>set_pixel\<close>, \<open>s_invalidate_mode\<close>, \<open>play_track\<close>) and the
  \<open>redraw_*\<close> functions of game.c read the engine state and never write it. They are
  left out, but for the loop of \<open>redraw_base\<close>, which runs over an \<open>int8_t\<close> and
  returns or not with the value of \<open>basePosition\<close>: it is modelled, and
  \<open>advance_asteroids\<close> ends with it.
  \<open>initialise_game\<close> reaches \<open>redraw_base\<close> with the base at column 3 and
  \<open>move_base\<close> calls it before and after the move; with the base in the field the call
  returns and changes nothing (\<open>redraw_base_returns\<close> below), every reachable state has
  the base in the field (\<open>reachable_base_in_field\<close>), and the definitions of these two
  operations leave the call out.
\<close>

type_synonym uint8_t = "8 word"
type_synonym int8_t = "8 word"

subsection \<open>Constants of game.h\<close>

text \<open>
  game.h is not among the sources. The field is 8 columns by 16 rows (the comment on the
  position macros, and the literals \<open>7\<close> and \<open>8*16\<close> of game.c); the comment in
  \<open>move_base\<close> gives \<open>MOVE_LEFT\<close> and \<open>MOVE_RIGHT\<close>. The capacities
  \<open>MAX_PROJECTILES\<close> and \<open>MAX_ASTEROIDS\<close> are parameters of the functions that use
  them; they are bytes, as the counters that run up to them are.
\<close>

definition FIELD_WIDTH :: nat where
  "FIELD_WIDTH = 8"

definition FIELD_HEIGHT :: nat where
  "FIELD_HEIGHT = 16"

definition MOVE_LEFT :: int8_t where
  "MOVE_LEFT = 0"

definition MOVE_RIGHT :: int8_t where
  "MOVE_RIGHT = 1"

subsection \<open>Positions\<close>

definition GAME_POSITION :: "uint8_t \<Rightarrow> uint8_t \<Rightarrow> uint8_t" where
  "GAME_POSITION x y = (push_bit 4 x) OR (y AND 0x0F)"

definition GET_X_POSITION :: "uint8_t \<Rightarrow> uint8_t" where
  "GET_X_POSITION posn = drop_bit 4 posn"

definition GET_Y_POSITION :: "uint8_t \<Rightarrow> uint8_t" where
  "GET_Y_POSITION posn = posn AND 0x0F"

subsection \<open>The state\<close>

text \<open>
  The five globals of game.c and its pause flag, then what the engine reaches through
  calls: the score and the lives, and the generator behind \<open>random()\<close>, which is the
  sequence \<open>rand_src\<close> of the values it will return and the number \<open>rand_pos\<close> of values
  already taken.
\<close>

record game =
  basePosition :: int8_t
  numProjectiles :: int8_t
  projectiles :: "uint8_t list"
  numAsteroids :: int8_t
  asteroids :: "uint8_t list"
  paused :: uint8_t
  score :: int
  lives :: int
  rand_src :: "nat \<Rightarrow> nat"
  rand_pos :: nat

definition random :: "game \<Rightarrow> nat \<times> game" where
  "random s = (rand_src s (rand_pos s), s\<lparr>rand_pos := Suc (rand_pos s)\<rparr>)"

text \<open>
  Modelled from the spec: the score and lives store (score.c is not among the sources).
  \<open>add_to_score(delta)\<close> and \<open>change_lives(delta)\<close> add the delta, \<open>get_lives()\<close> reads
  the lives.
\<close>

definition add_to_score :: "int \<Rightarrow> game \<Rightarrow> game" where
  "add_to_score delta s = s\<lparr>score := score s + delta\<rparr>"

definition change_lives :: "int \<Rightarrow> game \<Rightarrow> game" where
  "change_lives delta s = s\<lparr>lives := lives s + delta\<rparr>"

definition get_lives :: "game \<Rightarrow> int" where
  "get_lives s = lives s"

subsection \<open>Occupancy queries\<close>

text \<open>
  \<open>asteroid_at\<close> and \<open>projectile_at\<close> run the same loop, one over \<open>asteroids\<close> up to
  \<open>numAsteroids\<close>, the other over \<open>projectiles\<close> up to \<open>numProjectiles\<close>:
  \<^verbatim>\<open>for(i=0; i < num; i++) { if(arr[i] == positionToCheck) return i; } return -1;\<close>
\<close>

function position_at_loop :: "uint8_t \<Rightarrow> int8_t \<Rightarrow> uint8_t list \<Rightarrow> uint8_t \<Rightarrow> int8_t" where
  "position_at_loop i num arr positionToCheck =
     (if uint i < sint num then
        (if arr ! unat i = positionToCheck then i
         else position_at_loop (i + 1) num arr positionToCheck)
      else - 1)"
  by pat_completeness auto
termination
proof (relation "measure (\<lambda>(i, num, arr, p). nat (sint num - uint i))")
  show "wf (measure (\<lambda>(i, num, arr, p). nat (sint num - uint i)))"
    by simp
next
  fix i num :: "8 word" and arr :: "uint8_t list" and positionToCheck :: uint8_t
  assume a: "uint i < sint num"
  have "sint num \<le> 127"
    using sint_lt [of num] by simp
  then have "uint i < 255"
    using a by simp
  then have "uint (i + 1) = uint i + 1"
    by (simp add: uint_word_ariths take_bit_int_eq_self)
  then show "((i + 1, num, arr, positionToCheck), (i, num, arr, positionToCheck))
      \<in> measure (\<lambda>(i, num, arr, p). nat (sint num - uint i))"
    using a by simp
qed

declare position_at_loop.simps [simp del]

definition asteroid_at :: "uint8_t \<Rightarrow> uint8_t \<Rightarrow> game \<Rightarrow> int8_t" where
  "asteroid_at x y s = position_at_loop 0 (numAsteroids s) (asteroids s) (GAME_POSITION x y)"

definition projectile_at :: "uint8_t \<Rightarrow> uint8_t \<Rightarrow> game \<Rightarrow> int8_t" where
  "projectile_at x y s = position_at_loop 0 (numProjectiles s) (projectiles s) (GAME_POSITION x y)"

subsection \<open>Removal\<close>

text \<open>
  The loop of \<open>remove_asteroid\<close> and of \<open>remove_projectile\<close>:
  \<^verbatim>\<open>for(uint8_t i = index+1; i < num; i++) { arr[i-1] = arr[i]; }\<close>
\<close>

function close_gap_loop :: "uint8_t \<Rightarrow> int8_t \<Rightarrow> uint8_t list \<Rightarrow> uint8_t list" where
  "close_gap_loop i num arr =
     (if uint i < sint num then close_gap_loop (i + 1) num (arr[unat i - 1 := arr ! unat i])
      else arr)"
  by pat_completeness auto
termination
proof (relation "measure (\<lambda>(i, num, arr). nat (sint num - uint i))")
  show "wf (measure (\<lambda>(i, num, arr). nat (sint num - uint i)))"
    by simp
next
  fix i num :: "8 word" and arr :: "uint8_t list"
  assume a: "uint i < sint num"
  have "sint num \<le> 127"
    using sint_lt [of num] by simp
  then have "uint i < 255"
    using a by simp
  then have "uint (i + 1) = uint i + 1"
    by (simp add: uint_word_ariths take_bit_int_eq_self)
  then show "((i + 1, num, arr[unat i - 1 := arr ! unat i]), (i, num, arr))
      \<in> measure (\<lambda>(i, num, arr). nat (sint num - uint i))"
    using a by simp
qed

declare close_gap_loop.simps [simp del]

definition remove_asteroid :: "int8_t \<Rightarrow> game \<Rightarrow> game" where
  "remove_asteroid asteroidNumber s =
     (if sint asteroidNumber < 0 \<or> sint asteroidNumber \<ge> sint (numAsteroids s) then s
      else s\<lparr>asteroids := close_gap_loop (asteroidNumber + 1) (numAsteroids s) (asteroids s),
             numAsteroids := numAsteroids s - 1\<rparr>)"

definition remove_projectile :: "int8_t \<Rightarrow> game \<Rightarrow> game" where
  "remove_projectile projectileNumber s =
     (if sint projectileNumber < 0 \<or> sint projectileNumber \<ge> sint (numProjectiles s) then s
      else s\<lparr>projectiles := close_gap_loop (projectileNumber + 1) (numProjectiles s) (projectiles s),
             numProjectiles := numProjectiles s - 1\<rparr>)"

subsection \<open>Hits\<close>

definition check_asteroid_hit :: "int8_t \<Rightarrow> int8_t \<Rightarrow> game \<Rightarrow> int8_t \<times> game" where
  "check_asteroid_hit projectileIndex asteroidHit s =
     (if projectileIndex = - 1 \<or> asteroidHit = - 1 then (0, s)
      else (1, add_to_score 1 (remove_asteroid asteroidHit (remove_projectile projectileIndex s))))"

definition check_base_hit :: "int8_t \<Rightarrow> int8_t \<Rightarrow> game \<Rightarrow> uint8_t \<times> game" where
  "check_base_hit x y s =
     (let asteroid = asteroid_at x y s in
      if asteroid = - 1 then (0, s)
      else (1, change_lives (- 1) (remove_asteroid asteroid s)))"

definition check_all_base_hits :: "game \<Rightarrow> game" where
  "check_all_base_hits s =
     (let s1 = snd (check_base_hit (basePosition s) 1 s);
          s2 = snd (check_base_hit (basePosition s1 - 1) 0 s1);
          s3 = snd (check_base_hit (basePosition s2) 0 s2)
      in snd (check_base_hit (basePosition s3 + 1) 0 s3))"

subsection \<open>Spawning\<close>

text \<open>
  The \<open>do ... while (attempts <= 8*16)\<close> loop of \<open>add_asteroid_in_rows\<close>. Each pass
  calls \<open>random()\<close> twice. The row is \<open>blockedRows + random() % (FIELD_HEIGHT - blockedRows)\<close>;
  the engine calls it with \<open>blockedRows\<close> 3 and 15 only, and the model is that of the C
  for \<open>blockedRows < FIELD_HEIGHT\<close>.
\<close>

function add_asteroid_loop :: "uint8_t \<Rightarrow> uint8_t \<Rightarrow> uint8_t \<Rightarrow> game \<Rightarrow> game" where
  "add_asteroid_loop blockedRows i attempts s =
     (let (r1, s1) = random s;
          x = (of_nat (r1 mod FIELD_WIDTH) :: uint8_t);
          (r2, s2) = random s1;
          y = (of_nat (unat blockedRows + r2 mod (FIELD_HEIGHT - unat blockedRows)) :: uint8_t)
      in if asteroid_at x y s2 = - 1 then
           s2\<lparr>asteroids := (asteroids s2)[unat i := GAME_POSITION x y],
              numAsteroids := numAsteroids s2 + 1\<rparr>
         else if unat (attempts + 1) \<le> 8 * 16 then
           add_asteroid_loop blockedRows i (attempts + 1) s2
         else s2)"
  by pat_completeness auto
termination
proof (relation "measure (\<lambda>(b, i, attempts, s). unat (129 - attempts))")
  show "wf (measure (\<lambda>(b, i, attempts, s). unat (129 - attempts)))"
    by simp
next
  fix blockedRows i attempts :: "8 word" and s ya :: game
  assume a: "unat (attempts + 1) \<le> 8 * 16"
  have b: "unat attempts < 256"
    using unsigned_less [of attempts, where ?'a = nat] by simp
  have c: "unat (attempts + 1) = (unat attempts + 1) mod 256"
    by (simp add: unat_word_ariths)
  have d: "unat (129 - (attempts + 1)) =
      (if unat attempts \<le> 128 then 128 - unat attempts else 384 - unat attempts)"
    by (simp add: unat_sub_if')
  have f: "unat (129 - attempts) =
      (if unat attempts \<le> 129 then 129 - unat attempts else 385 - unat attempts)"
    by (simp add: unat_sub_if')
  have "unat (129 - (attempts + 1)) < unat (129 - attempts)"
    using a b unfolding c d f by (auto split: if_splits)
  then show "((blockedRows, i, attempts + 1, ya), (blockedRows, i, attempts, s))
      \<in> measure (\<lambda>(b, i, attempts, s). unat (129 - attempts))"
    by simp
qed

declare add_asteroid_loop.simps [simp del]

definition add_asteroid_in_rows :: "uint8_t \<Rightarrow> uint8_t \<Rightarrow> game \<Rightarrow> game" where
  "add_asteroid_in_rows MAX_ASTEROIDS blockedRows s =
     (if sint (numAsteroids s) = uint MAX_ASTEROIDS then s
      else add_asteroid_loop blockedRows (numAsteroids s) 0 s)"

definition add_asteroid :: "uint8_t \<Rightarrow> game \<Rightarrow> game" where
  "add_asteroid MAX_ASTEROIDS s = add_asteroid_in_rows MAX_ASTEROIDS 3 s"

text \<open>
  \<^verbatim>\<open>for (uint8_t i = numAsteroids; i < MAX_ASTEROIDS; i++) add_asteroid_in_rows(FIELD_HEIGHT-1);\<close>
\<close>

function add_missing_asteroids_loop :: "uint8_t \<Rightarrow> uint8_t \<Rightarrow> game \<Rightarrow> game" where
  "add_missing_asteroids_loop MAX_ASTEROIDS i s =
     (if i < MAX_ASTEROIDS then
        add_missing_asteroids_loop MAX_ASTEROIDS (i + 1)
          (add_asteroid_in_rows MAX_ASTEROIDS (of_nat (FIELD_HEIGHT - 1)) s)
      else s)"
  by pat_completeness auto
termination
proof (relation "measure (\<lambda>(m, i, s). unat m - unat i)")
  show "wf (measure (\<lambda>(m, i, s). unat m - unat i))"
    by simp
next
  fix MAX_ASTEROIDS i :: "8 word" and s :: game
  assume a: "i < MAX_ASTEROIDS"
  have "unat MAX_ASTEROIDS < 256"
    using unsigned_less [of MAX_ASTEROIDS, where ?'a = nat] by simp
  then have "unat (i + 1) = unat i + 1"
    using a by (simp add: unat_word_ariths word_less_nat_alt)
  then show "((MAX_ASTEROIDS, i + 1,
        add_asteroid_in_rows MAX_ASTEROIDS (of_nat (FIELD_HEIGHT - 1)) s), (MAX_ASTEROIDS, i, s))
      \<in> measure (\<lambda>(m, i, s). unat m - unat i)"
    using a by (simp add: word_less_nat_alt)
qed

declare add_missing_asteroids_loop.simps [simp del]

definition add_missing_asteroids :: "uint8_t \<Rightarrow> game \<Rightarrow> game" where
  "add_missing_asteroids MAX_ASTEROIDS s =
     add_missing_asteroids_loop MAX_ASTEROIDS (numAsteroids s) s"

subsection \<open>Sorting\<close>

text \<open>
  The inner loop of \<open>sort_asteroids\<close>:
  \<^verbatim>\<open>while (j > 0 && (GET_Y_POSITION(asteroids[j-1]) > GET_Y_POSITION(temp))) {
    asteroids[j] = asteroids[j-1]; j--; }\<close>
  It returns \<open>j\<close> and the array.
\<close>

function sort_asteroids_inner :: "uint8_t \<Rightarrow> uint8_t \<Rightarrow> uint8_t list \<Rightarrow> uint8_t \<times> uint8_t list" where
  "sort_asteroids_inner j temp arr =
     (if j > 0 \<and> GET_Y_POSITION (arr ! (unat j - 1)) > GET_Y_POSITION temp then
        sort_asteroids_inner (j - 1) temp (arr[unat j := arr ! (unat j - 1)])
      else (j, arr))"
  by pat_completeness auto
termination
proof (relation "measure (\<lambda>(j, temp, arr). unat j)")
  show "wf (measure (\<lambda>(j, temp, arr). unat j))"
    by simp
next
  fix j temp :: "8 word" and arr :: "uint8_t list"
  assume "0 < j \<and> GET_Y_POSITION temp < GET_Y_POSITION (arr ! (unat j - 1))"
  then have "unat (j - 1) < unat j"
    by (simp add: unat_minus_one word_less_nat_alt unat_gt_0)
  then show "((j - 1, temp, arr[unat j := arr ! (unat j - 1)]), (j, temp, arr))
      \<in> measure (\<lambda>(j, temp, arr). unat j)"
    by simp
qed

declare sort_asteroids_inner.simps [simp del]

text \<open>
  The outer loop, \<^verbatim>\<open>for (i = 1; i < numAsteroids; i++)\<close>, from a given \<open>i\<close>.
\<close>

function sort_asteroids_loop :: "uint8_t \<Rightarrow> game \<Rightarrow> game" where
  "sort_asteroids_loop i s =
     (if uint i < sint (numAsteroids s) then
        (let temp = asteroids s ! unat i;
             (j, arr) = sort_asteroids_inner i temp (asteroids s)
         in sort_asteroids_loop (i + 1) (s\<lparr>asteroids := arr[unat j := temp]\<rparr>))
      else s)"
  by pat_completeness auto
termination
proof (relation "measure (\<lambda>(i, s). nat (sint (numAsteroids s) - uint i))")
  show "wf (measure (\<lambda>(i, s). nat (sint (numAsteroids s) - uint i)))"
    by simp
next
  fix i :: "8 word" and s :: game and temp :: uint8_t and x :: "uint8_t \<times> uint8_t list"
    and j :: uint8_t and arr :: "uint8_t list"
  assume a: "uint i < sint (numAsteroids s)"
  have "sint (numAsteroids s) \<le> 127"
    using sint_lt [of "numAsteroids s"] by simp
  then have "uint i < 255"
    using a by simp
  then have "uint (i + 1) = uint i + 1"
    by (simp add: uint_word_ariths take_bit_int_eq_self)
  then show "((i + 1, s\<lparr>asteroids := arr[unat j := temp]\<rparr>), (i, s))
      \<in> measure (\<lambda>(i, s). nat (sint (numAsteroids s) - uint i))"
    using a by simp
qed

declare sort_asteroids_loop.simps [simp del]

definition sort_asteroids :: "game \<Rightarrow> game" where
  "sort_asteroids s = sort_asteroids_loop 1 s"

subsection \<open>The public operations\<close>

text \<open>
  \<^verbatim>\<open>for(uint8_t i=0; i < MAX_ASTEROIDS ; i++) { add_asteroid(); }\<close>
\<close>

function initialise_game_loop :: "uint8_t \<Rightarrow> uint8_t \<Rightarrow> game \<Rightarrow> game" where
  "initialise_game_loop MAX_ASTEROIDS i s =
     (if i < MAX_ASTEROIDS then
        initialise_game_loop MAX_ASTEROIDS (i + 1) (add_asteroid MAX_ASTEROIDS s)
      else s)"
  by pat_completeness auto
termination
proof (relation "measure (\<lambda>(m, i, s). unat m - unat i)")
  show "wf (measure (\<lambda>(m, i, s). unat m - unat i))"
    by simp
next
  fix MAX_ASTEROIDS i :: "8 word" and s :: game
  assume a: "i < MAX_ASTEROIDS"
  have "unat MAX_ASTEROIDS < 256"
    using unsigned_less [of MAX_ASTEROIDS, where ?'a = nat] by simp
  then have "unat (i + 1) = unat i + 1"
    using a by (simp add: unat_word_ariths word_less_nat_alt)
  then show "((MAX_ASTEROIDS, i + 1, add_asteroid MAX_ASTEROIDS s), (MAX_ASTEROIDS, i, s))
      \<in> measure (\<lambda>(m, i, s). unat m - unat i)"
    using a by (simp add: word_less_nat_alt)
qed

declare initialise_game_loop.simps [simp del]

definition initialise_game :: "uint8_t \<Rightarrow> game \<Rightarrow> game" where
  "initialise_game MAX_ASTEROIDS s =
     (let s1 = s\<lparr>basePosition := 3, numProjectiles := 0, numAsteroids := 0, paused := 0\<rparr>;
          s2 = initialise_game_loop MAX_ASTEROIDS 0 s1
      in sort_asteroids s2)"

definition move_base :: "int8_t \<Rightarrow> game \<Rightarrow> int8_t \<times> game" where
  "move_base direction s =
     (if (basePosition s = 0 \<and> direction = MOVE_LEFT)
         \<or> (basePosition s = 7 \<and> direction = MOVE_RIGHT) then (0, s)
      else
        (let s1 = s\<lparr>basePosition := basePosition s + (2 * direction - 1)\<rparr>
         in (1, check_all_base_hits s1)))"

definition fire_projectile :: "uint8_t \<Rightarrow> game \<Rightarrow> int8_t \<times> game" where
  "fire_projectile MAX_PROJECTILES s =
     (if sint (numProjectiles s) < uint MAX_PROJECTILES
         \<and> projectile_at (basePosition s) 2 s = - 1 then
        (let newProjectileNumber = numProjectiles s;
             s1 = s\<lparr>numProjectiles := numProjectiles s + 1\<rparr>;
             s2 = s1\<lparr>projectiles :=
                     (projectiles s1)[unat newProjectileNumber := GAME_POSITION (basePosition s1) 2]\<rparr>;
             (r, s3) = check_asteroid_hit newProjectileNumber (asteroid_at (basePosition s2) 2 s2) s2
         in (1, s3))
      else (0, s))"

text \<open>
  The \<open>while\<close> loop of \<open>advance_projectiles\<close>, from a given \<open>projectileNumber\<close>. A
  \<open>continue\<close> is the recursive call with the index as it is. Nothing in the loop's text
  bounds its passes, so not returning is the value \<open>None\<close>.
\<close>

partial_function (option) advance_projectiles_loop :: "int8_t \<Rightarrow> game \<Rightarrow> game option" where
  "advance_projectiles_loop projectileNumber s =
     (if sint projectileNumber < sint (numProjectiles s) then
        (let x = GET_X_POSITION (projectiles s ! nat (sint projectileNumber));
             y = GET_Y_POSITION (projectiles s ! nat (sint projectileNumber));
             y = y + 1
         in if unat y = FIELD_HEIGHT then
              advance_projectiles_loop projectileNumber (remove_projectile projectileNumber s)
            else
              (case check_asteroid_hit projectileNumber (asteroid_at x y s) s of
                 (r, s1) \<Rightarrow>
                   if r \<noteq> 0 then advance_projectiles_loop projectileNumber s1
                   else advance_projectiles_loop (projectileNumber + 1)
                          (s1\<lparr>projectiles :=
                               (projectiles s1)[nat (sint projectileNumber) := GAME_POSITION x y]\<rparr>)))
      else Some s)"

definition advance_projectiles :: "uint8_t \<Rightarrow> game \<Rightarrow> game option" where
  "advance_projectiles MAX_ASTEROIDS s =
     (case advance_projectiles_loop 0 s of
        None \<Rightarrow> None
      | Some s1 \<Rightarrow> Some (add_missing_asteroids MAX_ASTEROIDS s1))"

text \<open>
  The \<open>while\<close> loop of \<open>advance_asteroids\<close>, from a given \<open>i\<close>. The counter \<open>j\<close> of
  the source is written and never read.
\<close>

partial_function (option) advance_asteroids_loop :: "uint8_t \<Rightarrow> game \<Rightarrow> game option" where
  "advance_asteroids_loop i s =
     (if uint i < sint (numAsteroids s) then
        (let x = GET_X_POSITION (asteroids s ! unat i);
             y = GET_Y_POSITION (asteroids s ! unat i);
             new_y = y - 1
         in if sint new_y < 0 then advance_asteroids_loop i (remove_asteroid i s)
            else
              (case check_asteroid_hit (projectile_at x new_y s) i s of
                 (r, s1) \<Rightarrow>
                   if r \<noteq> 0 then advance_asteroids_loop i s1
                   else advance_asteroids_loop (i + 1)
                          (s1\<lparr>asteroids := (asteroids s1)[unat i := GAME_POSITION x new_y]\<rparr>)))
      else Some s)"

text \<open>
  The loop of \<open>redraw_base\<close>:
  \<^verbatim>\<open>for(int8_t x = basePosition - 1; x <= basePosition+1; x++) { ... set_pixel(x, 0, colour); }\<close>
  The test compares as \<open>int\<close>, and \<open>x++\<close> wraps in the byte, so with the base at
  column 126 or 127 the test never fails. The pixels it sets belong to the display; the
  state comes back as it went in.
\<close>

partial_function (option) redraw_base_loop :: "int8_t \<Rightarrow> game \<Rightarrow> game option" where
  "redraw_base_loop x s =
     (if sint x \<le> sint (basePosition s) + 1 then redraw_base_loop (x + 1) s else Some s)"

definition redraw_base :: "game \<Rightarrow> game option" where
  "redraw_base s = redraw_base_loop (basePosition s - 1) s"

definition advance_asteroids :: "uint8_t \<Rightarrow> game \<Rightarrow> game option" where
  "advance_asteroids MAX_ASTEROIDS s =
     (case advance_asteroids_loop 0 s of
        None \<Rightarrow> None
      | Some s1 \<Rightarrow> redraw_base (add_missing_asteroids MAX_ASTEROIDS (check_all_base_hits s1)))"

definition is_game_over :: "game \<Rightarrow> bool" where
  "is_game_over s = (get_lives s = 0)"

definition set_paused :: "uint8_t \<Rightarrow> game \<Rightarrow> game" where
  "set_paused pause s = s\<lparr>paused := pause\<rparr>"

definition is_paused :: "game \<Rightarrow> uint8_t" where
  "is_paused s = paused s"

subsection \<open>Views of the state\<close>

text \<open>The live prefix of each array, and the states the arrays and counters allow.\<close>

definition live_asteroids :: "game \<Rightarrow> uint8_t list" where
  "live_asteroids s = take (nat (sint (numAsteroids s))) (asteroids s)"

definition live_projectiles :: "game \<Rightarrow> uint8_t list" where
  "live_projectiles s = take (nat (sint (numProjectiles s))) (projectiles s)"

definition well_formed :: "uint8_t \<Rightarrow> uint8_t \<Rightarrow> game \<Rightarrow> bool" where
  "well_formed MAX_PROJECTILES MAX_ASTEROIDS s =
     (uint MAX_PROJECTILES \<le> 127 \<and> uint MAX_ASTEROIDS \<le> 127
      \<and> length (projectiles s) = unat MAX_PROJECTILES \<and> length (asteroids s) = unat MAX_ASTEROIDS
      \<and> 0 \<le> sint (numProjectiles s) \<and> sint (numProjectiles s) \<le> uint MAX_PROJECTILES
      \<and> 0 \<le> sint (numAsteroids s) \<and> sint (numAsteroids s) \<le> uint MAX_ASTEROIDS)"

text \<open>
  The cell that pass \<open>k\<close> (from 0) of the loop of \<open>add_asteroid_in_rows\<close> samples when
  the call starts in state \<open>s\<close>: two values of \<open>random()\<close> per pass.
\<close>

definition spawn_cell :: "uint8_t \<Rightarrow> game \<Rightarrow> nat \<Rightarrow> uint8_t" where
  "spawn_cell blockedRows s k =
     GAME_POSITION (of_nat (rand_src s (rand_pos s + 2 * k) mod FIELD_WIDTH))
       (of_nat (unat blockedRows
          + rand_src s (rand_pos s + 2 * k + 1) mod (FIELD_HEIGHT - unat blockedRows)))"

text \<open>
  A spawn finds a cell when one of its first \<open>8 * FIELD_HEIGHT\<close> samples is free of
  asteroids; a replenishment of \<open>n\<close> spawns in the top row finds its cells when each
  spawn does, in the state the spawns before it have left.
\<close>

definition spawn_finds :: "uint8_t \<Rightarrow> game \<Rightarrow> bool" where
  "spawn_finds blockedRows s =
     (\<exists>k\<in>{..<8 * FIELD_HEIGHT}. spawn_cell blockedRows s k \<notin> set (live_asteroids s))"

fun replenish_finds :: "uint8_t \<Rightarrow> nat \<Rightarrow> game \<Rightarrow> bool" where
  "replenish_finds MAX_ASTEROIDS 0 s = True"
| "replenish_finds MAX_ASTEROIDS (Suc n) s =
     (spawn_finds (of_nat (FIELD_HEIGHT - 1)) s
      \<and> replenish_finds MAX_ASTEROIDS n
           (add_asteroid_in_rows MAX_ASTEROIDS (of_nat (FIELD_HEIGHT - 1)) s))"

text \<open>The four cells of the base, in the order \<open>check_all_base_hits\<close> looks at them.\<close>

definition base_cells :: "game \<Rightarrow> uint8_t list" where
  "base_cells s =
     [GAME_POSITION (basePosition s) 1, GAME_POSITION (basePosition s - 1) 0,
      GAME_POSITION (basePosition s) 0, GAME_POSITION (basePosition s + 1) 0]"

subsection \<open>Reachable states and their invariants\<close>

text \<open>
  The states the driver can reach: \<open>initialise_game\<close> from any state whose arrays have
  the declared sizes, then any of the public operations, \<open>move_base\<close> with one of its
  two directions.
\<close>

inductive reachable :: "uint8_t \<Rightarrow> uint8_t \<Rightarrow> game \<Rightarrow> bool"
  for MAX_PROJECTILES MAX_ASTEROIDS :: uint8_t where
  init: "length (projectiles s) = unat MAX_PROJECTILES \<Longrightarrow> length (asteroids s) = unat MAX_ASTEROIDS
      \<Longrightarrow> uint MAX_PROJECTILES \<le> 127 \<Longrightarrow> uint MAX_ASTEROIDS \<le> 127
      \<Longrightarrow> reachable MAX_PROJECTILES MAX_ASTEROIDS (initialise_game MAX_ASTEROIDS s)"
| move: "reachable MAX_PROJECTILES MAX_ASTEROIDS s
      \<Longrightarrow> direction = MOVE_LEFT \<or> direction = MOVE_RIGHT
      \<Longrightarrow> reachable MAX_PROJECTILES MAX_ASTEROIDS (snd (move_base direction s))"
| fire: "reachable MAX_PROJECTILES MAX_ASTEROIDS s
      \<Longrightarrow> reachable MAX_PROJECTILES MAX_ASTEROIDS (snd (fire_projectile MAX_PROJECTILES s))"
| projectiles: "reachable MAX_PROJECTILES MAX_ASTEROIDS s
      \<Longrightarrow> advance_projectiles MAX_ASTEROIDS s = Some s'
      \<Longrightarrow> reachable MAX_PROJECTILES MAX_ASTEROIDS s'"
| asteroids: "reachable MAX_PROJECTILES MAX_ASTEROIDS s
      \<Longrightarrow> advance_asteroids MAX_ASTEROIDS s = Some s'
      \<Longrightarrow> reachable MAX_PROJECTILES MAX_ASTEROIDS s'"
| pause: "reachable MAX_PROJECTILES MAX_ASTEROIDS s
      \<Longrightarrow> reachable MAX_PROJECTILES MAX_ASTEROIDS (set_paused pause s)"

text \<open>
  The live asteroids are in rows that do not decrease; no cell holds two live asteroids
  or two live projectiles.
\<close>

definition asteroids_sorted :: "game \<Rightarrow> bool" where
  "asteroids_sorted s = sorted (map (\<lambda>p. unat (GET_Y_POSITION p)) (live_asteroids s))"

definition no_shared_cell :: "game \<Rightarrow> bool" where
  "no_shared_cell s = (distinct (live_asteroids s) \<and> distinct (live_projectiles s))"

definition engine_inv :: "uint8_t \<Rightarrow> uint8_t \<Rightarrow> game \<Rightarrow> bool" where
  "engine_inv MAX_PROJECTILES MAX_ASTEROIDS s =
     (well_formed MAX_PROJECTILES MAX_ASTEROIDS s \<and> no_shared_cell s \<and> asteroids_sorted s)"

definition asteroids_inv :: "uint8_t \<Rightarrow> uint8_t \<Rightarrow> game \<Rightarrow> bool" where
  "asteroids_inv MAX_PROJECTILES MAX_ASTEROIDS s =
     (well_formed MAX_PROJECTILES MAX_ASTEROIDS s \<and> distinct (live_asteroids s)
      \<and> asteroids_sorted s)"

definition projectiles_inv :: "uint8_t \<Rightarrow> uint8_t \<Rightarrow> game \<Rightarrow> bool" where
  "projectiles_inv MAX_PROJECTILES MAX_ASTEROIDS s =
     (well_formed MAX_PROJECTILES MAX_ASTEROIDS s \<and> distinct (live_projectiles s))"

text \<open>
  The cell one row up and one row down, as \<open>advance_projectiles\<close> and
  \<open>advance_asteroids\<close> compute it. In the middle of an advance loop the entries below
  the index have moved and the others have not: \<open>staged g k xs\<close> takes the first \<open>k\<close>
  entries back with \<open>g\<close>.
\<close>

definition row_up :: "uint8_t \<Rightarrow> uint8_t" where
  "row_up p = GAME_POSITION (GET_X_POSITION p) (GET_Y_POSITION p + 1)"

definition row_down :: "uint8_t \<Rightarrow> uint8_t" where
  "row_down p = GAME_POSITION (GET_X_POSITION p) (GET_Y_POSITION p - 1)"

definition staged :: "('a \<Rightarrow> 'a) \<Rightarrow> nat \<Rightarrow> 'a list \<Rightarrow> 'a list" where
  "staged g k xs = map g (take k xs) @ drop k xs"

definition projectiles_staged :: "int8_t \<Rightarrow> game \<Rightarrow> bool" where
  "projectiles_staged pn s =
     (0 \<le> sint pn \<and> sint pn \<le> sint (numProjectiles s)
      \<and> (\<forall>q\<in>set (take (nat (sint pn)) (live_projectiles s)). unat (GET_Y_POSITION q) \<noteq> 0)
      \<and> distinct (staged row_down (nat (sint pn)) (live_projectiles s)))"

definition asteroids_staged :: "uint8_t \<Rightarrow> game \<Rightarrow> bool" where
  "asteroids_staged i s =
     (uint i \<le> sint (numAsteroids s)
      \<and> (\<forall>q\<in>set (take (unat i) (live_asteroids s)). unat (GET_Y_POSITION q) \<noteq> 15)
      \<and> distinct (staged row_up (unat i) (live_asteroids s))
      \<and> sorted (map (\<lambda>p. unat (GET_Y_POSITION p)) (staged row_up (unat i) (live_asteroids s))))"

subsection \<open>Example states\<close>

text \<open>
  Two states with room for four projectiles and four asteroids. In \<open>scenario_hit\<close> the
  base is at column 3 and the one asteroid is at \<open>(3,2)\<close>, right above it. In
  \<open>scenario_three\<close> three of each are live, and a projectile is in the cell above the
  base.
\<close>

definition scenario_hit :: game where
  "scenario_hit = \<lparr>basePosition = 3, numProjectiles = 0, projectiles = [0, 0, 0, 0],
     numAsteroids = 1, asteroids = [0x32, 0, 0, 0], paused = 0, score = 0, lives = 3,
     rand_src = (\<lambda>n. 0), rand_pos = 0\<rparr>"

definition scenario_three :: game where
  "scenario_three = \<lparr>basePosition = 3, numProjectiles = 3, projectiles = [0x32, 0x3F, 0x55, 0],
     numAsteroids = 3, asteroids = [0x23, 0x34, 0x45, 0], paused = 0, score = 0, lives = 3,
     rand_src = (\<lambda>n. 0), rand_pos = 0\<rparr>"

text \<open>
  In \<open>scenario_full\<close> all four asteroids are live and one is at \<open>(4,1)\<close>, where the
  top of the base is after a move to the right. In \<open>scenario_base_hit\<close> two asteroids
  are in cells of the base. In \<open>scenario_top_row\<close>, with room for twenty asteroids,
  eight are live and fill the top row; the sequence of \<open>random()\<close> is a parameter.
\<close>

definition scenario_full :: game where
  "scenario_full = \<lparr>basePosition = 3, numProjectiles = 0, projectiles = [0, 0, 0, 0],
     numAsteroids = 4, asteroids = [0x41, 0x55, 0x66, 0x77], paused = 0, score = 0, lives = 3,
     rand_src = (\<lambda>n. 0), rand_pos = 0\<rparr>"

definition scenario_base_hit :: game where
  "scenario_base_hit = \<lparr>basePosition = 3, numProjectiles = 0, projectiles = [0, 0, 0, 0],
     numAsteroids = 3, asteroids = [0x20, 0x31, 0x55, 0], paused = 0, score = 0, lives = 3,
     rand_src = (\<lambda>n. 0), rand_pos = 0\<rparr>"

definition scenario_top_row :: "(nat \<Rightarrow> nat) \<Rightarrow> game" where
  "scenario_top_row r = \<lparr>basePosition = 3, numProjectiles = 0, projectiles = [0, 0, 0, 0],
     numAsteroids = 8,
     asteroids = [0x0F, 0x1F, 0x2F, 0x3F, 0x4F, 0x5F, 0x6F, 0x7F] @ replicate 12 0,
     paused = 0, score = 0, lives = 3, rand_src = r, rand_pos = 0\<rparr>"

text \<open>
  \<open>scenario_seeded\<close> is a state before \<open>initialise_game\<close>: stale counts and array
  entries, and a sequence of \<open>random()\<close> that puts the four asteroids in rows 9, 7, 5
  and 3, in that order.
\<close>

definition scenario_seeded :: game where
  "scenario_seeded = \<lparr>basePosition = 0, numProjectiles = 2, projectiles = [0x11, 0x11, 0, 0],
     numAsteroids = 2, asteroids = [0x7F, 0x7F, 0, 0], paused = 1, score = 0, lives = 3,
     rand_src = (\<lambda>n. 20 - n), rand_pos = 0\<rparr>"

section \<open>Bytes\<close>

text \<open>Reading an 8-bit word as signed and as unsigned, and stepping it by one.\<close>

lemma w8_sint_alt: "sint (n :: 8 word) = (if uint n < 128 then uint n else uint n - 256)"
proof -
  have a: "0 \<le> uint n" "uint n < 256"
    using uint_lt2p [of n] by simp_all
  have b: "sint n = (uint n + 128) mod 256 - 128"
    by (simp add: sint_uint signed_take_bit_eq_take_bit_shift take_bit_eq_mod)
  show ?thesis
  proof (cases "uint n < 128")
    case True
    then have "(uint n + 128) mod 256 = uint n + 128"
      using a by (intro mod_pos_pos_trivial) linarith+
    then show ?thesis
      using True b by simp
  next
    case False
    have "uint n + 128 = uint n - 128 + 256"
      by linarith
    then have "(uint n + 128) mod 256 = (uint n - 128 + 256) mod 256"
      by (rule arg_cong)
    also have "\<dots> = (uint n - 128) mod 256"
      by (rule mod_add_self2)
    also have "\<dots> = uint n - 128"
      using a False by (intro mod_pos_pos_trivial) linarith+
    finally show ?thesis
      using False b by simp
  qed
qed

lemma w8_uint_m1: "uint (- 1 :: 8 word) = 255"
  by (simp add: unsigned_minus_1_eq_mask mask_eq_exp_minus_1)

lemma w8_uint_alt: "uint (n :: 8 word) = (if 0 \<le> sint n then sint n else sint n + 256)"
  using uint_lt2p [of n] by (simp add: w8_sint_alt)

lemma w8_uint_plus1: "uint (i :: 8 word) < 255 \<Longrightarrow> uint (i + 1) = uint i + 1"
  by (simp add: uint_word_ariths take_bit_int_eq_self)

lemma w8_uint_minus1: "0 < uint (i :: 8 word) \<Longrightarrow> uint (i - 1) = uint i - 1"
  using uint_lt2p [of i] by (simp add: uint_word_ariths take_bit_int_eq_self)

lemma w8_unat_plus1: "unat (i :: 8 word) < 255 \<Longrightarrow> unat (i + 1) = unat i + 1"
  by (simp add: unat_word_ariths)

lemma w8_sint_plus1: "sint (n :: 8 word) < 127 \<Longrightarrow> sint (n + 1) = sint n + 1"
proof -
  assume a: "sint n < 127"
  have b: "uint n < 256"
    using uint_lt2p [of n] by simp
  show ?thesis
  proof (cases "uint n < 128")
    case True
    then have "uint n < 127"
      using a by (simp add: w8_sint_alt)
    then have "uint (n + 1) = uint n + 1" "uint (n + 1) < 128"
      by (simp_all add: w8_uint_plus1)
    then show ?thesis
      using True by (simp add: w8_sint_alt)
  next
    case False
    show ?thesis
    proof (cases "uint n = 255")
      case True
      then have "n = - 1"
        by (simp add: word_uint_eq_iff w8_uint_m1)
      then show ?thesis
        by simp
    next
      case ne: False
      then have "uint (n + 1) = uint n + 1"
        using b by (simp add: w8_uint_plus1)
      then show ?thesis
        using False by (simp add: w8_sint_alt)
    qed
  qed
qed


lemma w8_sint_minus1: "- 128 < sint (n :: 8 word) \<Longrightarrow> sint (n - 1) = sint n - 1"
proof -
  assume a: "- 128 < sint n"
  have "sint (n - 1) < 127"
  proof (rule ccontr)
    assume "\<not> sint (n - 1) < 127"
    then have "sint (n - 1) = 127"
      using sint_lt [of "n - 1"] by simp
    then have "uint (n - 1) = 127"
      using uint_lt2p [of "n - 1"] by (simp add: w8_sint_alt split: if_splits)
    then have "n - 1 = 127"
      by (simp add: word_uint_eq_iff)
    then have "n = 128"
      by (metis add.commute diff_add_cancel one_plus_numeral semiring_norm(5) semiring_norm(4) semiring_norm(2) semiring_norm(3) semiring_norm(8) add_One)
    then show False
      using a by simp
  qed
  from w8_sint_plus1 [OF this] show ?thesis
    by simp
qed

lemma w8_sint_nonneg: "0 \<le> sint (n :: 8 word) \<Longrightarrow> uint n = sint n"
  using uint_lt2p [of n] by (simp add: w8_sint_alt split: if_splits)

lemma w8_uint_small: "uint (n :: 8 word) < 128 \<Longrightarrow> sint n = uint n"
  by (simp add: w8_sint_alt)

lemma w8_sint_le: "sint (n :: 8 word) \<le> 127"
  using sint_lt [of n] by simp

lemma w8_unat_nat_sint: "0 \<le> sint (n :: 8 word) \<Longrightarrow> unat n = nat (sint n)"
  using w8_sint_nonneg [of n] unat_eq_nat_uint [of n] by presburger

lemma w8_loop_index:
  assumes "uint (i :: 8 word) < sint (num :: 8 word)"
  shows "unat (i + 1) = Suc (unat i)" and "uint (i + 1) = uint i + 1" and "i \<noteq> - 1"
    and "sint i = uint i" and "int (unat i) < sint num"
proof -
  have a: "uint i < 127"
    using assms w8_sint_le [of num] by linarith
  have "int (unat i) < 127"
    using a by simp
  then have b: "unat i < 127"
    by linarith
  show "unat (i + 1) = Suc (unat i)"
    using b by (simp add: w8_unat_plus1)
  show "uint (i + 1) = uint i + 1"
    using a by (simp add: w8_uint_plus1)
  show "i \<noteq> - 1"
    using a w8_uint_m1 by force
  show "sint i = uint i"
    using a by (simp add: w8_uint_small)
  show "int (unat i) < sint num"
    using assms by simp
qed

lemma position_at_loop_none:
  "position_at_loop i num arr p = - 1
     \<longleftrightarrow> (\<forall>k. unat i \<le> k \<and> int k < sint num \<longrightarrow> arr ! k \<noteq> p)"
proof (induction i num arr p rule: position_at_loop.induct)
  case (1 i num arr p)
  show ?case
  proof (cases "uint i < sint num")
    case False
    have "\<And>k. unat i \<le> k \<Longrightarrow> \<not> int k < sint num"
    proof -
      fix k assume "unat i \<le> k"
      then have "uint i \<le> int k"
        by (metis of_nat_le_iff of_nat_unat)
      then show "\<not> int k < sint num"
        using False by linarith
    qed
    then show ?thesis
      using False by (subst position_at_loop.simps) auto
  next
    case True
    note idx = w8_loop_index [OF True]
    show ?thesis
    proof (cases "arr ! unat i = p")
      case hit: True
      have "position_at_loop i num arr p = i"
        using True hit by (subst position_at_loop.simps) simp
      then show ?thesis
        using hit idx(3,5) by auto
    next
      case miss: False
      have "position_at_loop i num arr p = position_at_loop (i + 1) num arr p"
        using True miss by (subst position_at_loop.simps) simp
      moreover have "(\<forall>k. unat i \<le> k \<and> int k < sint num \<longrightarrow> arr ! k \<noteq> p)
          \<longleftrightarrow> (\<forall>k. Suc (unat i) \<le> k \<and> int k < sint num \<longrightarrow> arr ! k \<noteq> p)"
        using miss by (metis Suc_leI le_neq_implies_less Suc_leD)
      ultimately show ?thesis
        using "1.IH" [OF True miss] idx(1) by simp
    qed
  qed
qed

lemma position_at_loop_some:
  "position_at_loop i num arr p = r \<Longrightarrow> r \<noteq> - 1
     \<Longrightarrow> unat i \<le> unat r \<and> uint r < sint num \<and> arr ! unat r = p
         \<and> (\<forall>k. unat i \<le> k \<and> k < unat r \<longrightarrow> arr ! k \<noteq> p)"
proof (induction i num arr p rule: position_at_loop.induct)
  case (1 i num arr p)
  show ?case
  proof (cases "uint i < sint num")
    case False
    then have "position_at_loop i num arr p = - 1"
      by (subst position_at_loop.simps) simp
    then show ?thesis
      using "1.prems" by simp
  next
    case True
    note idx = w8_loop_index [OF True]
    show ?thesis
    proof (cases "arr ! unat i = p")
      case hit: True
      then have "position_at_loop i num arr p = i"
        using True by (subst position_at_loop.simps) simp
      then show ?thesis
        using "1.prems" True hit by auto
    next
      case miss: False
      have "position_at_loop i num arr p = position_at_loop (i + 1) num arr p"
        using True miss by (subst position_at_loop.simps) simp
      then have "position_at_loop (i + 1) num arr p = r"
        using "1.prems" by simp
      from "1.IH" [OF True miss this "1.prems"(2)] show ?thesis
        using idx(1) miss by (metis Suc_leD Suc_leI le_neq_implies_less)
    qed
  qed
qed

section \<open>The occupancy loop and the removal loop\<close>

lemma set_take_nth: "n \<le> length arr \<Longrightarrow> p \<in> set (take n arr) \<longleftrightarrow> (\<exists>k<n. arr ! k = p)"
  by (auto simp: in_set_conv_nth)

lemma position_at_absent:
  assumes "nat (sint num) \<le> length arr"
  shows "position_at_loop 0 num arr p = - 1 \<longleftrightarrow> p \<notin> set (take (nat (sint num)) arr)"
proof -
  have a: "position_at_loop 0 num arr p = - 1 \<longleftrightarrow> (\<forall>k. int k < sint num \<longrightarrow> arr ! k \<noteq> p)"
    using position_at_loop_none [of 0 num arr p] by simp
  have b: "p \<notin> set (take (nat (sint num)) arr) \<longleftrightarrow> (\<forall>k<nat (sint num). arr ! k \<noteq> p)"
    using set_take_nth [OF assms, of p] by blast
  have c: "\<And>k. int k < sint num \<longleftrightarrow> k < nat (sint num)"
    by linarith
  show ?thesis
    unfolding a b c by blast
qed

lemma position_at_found:
  assumes "nat (sint num) \<le> length arr" and "position_at_loop 0 num arr p = r" and "r \<noteq> - 1"
  shows "unat r < nat (sint num)" and "arr ! unat r = p" and "sint r = int (unat r)"
    and "p \<notin> set (take (unat r) arr)"
proof -
  from position_at_loop_some [OF assms(2,3)]
  have a: "uint r < sint num" and b: "arr ! unat r = p"
    and c: "\<forall>k. k < unat r \<longrightarrow> arr ! k \<noteq> p"
    by simp_all
  note idx = w8_loop_index [OF a]
  show "unat r < nat (sint num)"
    using idx(5) by linarith
  then have "unat r \<le> length arr"
    using assms(1) by linarith
  then show "p \<notin> set (take (unat r) arr)"
    using c by (simp add: set_take_nth)
  show "arr ! unat r = p"
    by (rule b)
  show "sint r = int (unat r)"
    using idx(4) by simp
qed

lemma close_gap_loop_length: "length (close_gap_loop i num arr) = length arr"
  by (induction i num arr rule: close_gap_loop.induct)
     (subst close_gap_loop.simps, simp)

lemma close_gap_loop_nth:
  "0 < unat i \<Longrightarrow> nat (sint num) \<le> length arr \<Longrightarrow> k < length arr
     \<Longrightarrow> close_gap_loop i num arr ! k
         = (if unat i - 1 \<le> k \<and> int k + 1 < sint num then arr ! Suc k else arr ! k)"
proof (induction i num arr arbitrary: k rule: close_gap_loop.induct)
  case (1 i num arr)
  show ?case
  proof (cases "uint i < sint num")
    case False
    have "\<not> (unat i - 1 \<le> k \<and> int k + 1 < sint num)"
    proof
      assume "unat i - 1 \<le> k \<and> int k + 1 < sint num"
      then have "int (unat i) \<le> int k + 1" "int k + 1 < sint num"
        using "1.prems"(1) by linarith+
      then show False
        using False by simp
    qed
    then show ?thesis
      using False by (subst close_gap_loop.simps) auto
  next
    case True
    note idx = w8_loop_index [OF True]
    let ?arr = "arr[unat i - 1 := arr ! unat i]"
    have step: "close_gap_loop i num arr = close_gap_loop (i + 1) num ?arr"
      using True by (subst close_gap_loop.simps) simp
    have ih: "close_gap_loop (i + 1) num ?arr ! k
        = (if unat (i + 1) - 1 \<le> k \<and> int k + 1 < sint num then ?arr ! Suc k else ?arr ! k)"
      using "1.IH" [OF True, of k] "1.prems" idx(1) by simp
    have in_range: "unat i < length arr"
      using idx(5) "1.prems"(2) by linarith
    show ?thesis
      unfolding step ih idx(1)
      using "1.prems"(1,3) in_range idx(5)
      by (auto simp: nth_list_update)
  qed
qed

lemma shifted_live:
  fixes arr arr' :: "'a list" and n k :: nat
  assumes "k < n" and "n \<le> length arr" and "length arr' = length arr"
    and "\<And>j. j < length arr \<Longrightarrow> arr' ! j = (if k \<le> j \<and> Suc j < n then arr ! Suc j else arr ! j)"
  shows "take (n - 1) arr' = take k (take n arr) @ drop (Suc k) (take n arr)"
proof (rule nth_equalityI)
  show "length (take (n - 1) arr') = length (take k (take n arr) @ drop (Suc k) (take n arr))"
    using assms(1,2,3) by simp
  fix j
  assume "j < length (take (n - 1) arr')"
  then have j: "j < n - 1"
    by simp
  then have jl: "j < length arr" and sj: "Suc j < n"
    using assms(2) by linarith+
  have "take (n - 1) arr' ! j = arr' ! j"
    using j by simp
  also have "\<dots> = (if k \<le> j then arr ! Suc j else arr ! j)"
    using assms(4) [OF jl] sj by simp
  also have "\<dots> = (take k (take n arr) @ drop (Suc k) (take n arr)) ! j"
    using sj assms(1,2) by (simp add: nth_append)
  finally show "take (n - 1) arr' ! j = (take k (take n arr) @ drop (Suc k) (take n arr)) ! j" .
qed

lemma close_gap_live:
  assumes "0 \<le> sint idx" and "sint idx < sint num" and "nat (sint num) \<le> length arr"
  shows "take (nat (sint num) - 1) (close_gap_loop (idx + 1) num arr)
    = take (nat (sint idx)) (take (nat (sint num)) arr)
      @ drop (Suc (nat (sint idx))) (take (nat (sint num)) arr)"
proof (rule shifted_live)
  let ?n = "nat (sint num)" and ?k = "nat (sint idx)"
  show kn: "?k < ?n"
    using assms(1,2) by linarith
  show "?n \<le> length arr"
    by (rule assms(3))
  show "length (close_gap_loop (idx + 1) num arr) = length arr"
    by (rule close_gap_loop_length)
  have "sint idx < 127"
    using assms(2) w8_sint_le [of num] by linarith
  then have "sint (idx + 1) = sint idx + 1"
    by (rule w8_sint_plus1)
  then have "unat (idx + 1) = nat (sint idx + 1)"
    using assms(1) w8_unat_nat_sint [of "idx + 1"] by simp
  then have u: "unat (idx + 1) = Suc ?k"
    using assms(1) by linarith
  fix j
  assume jl: "j < length arr"
  have "close_gap_loop (idx + 1) num arr ! j
      = (if unat (idx + 1) - 1 \<le> j \<and> int j + 1 < sint num then arr ! Suc j else arr ! j)"
    using close_gap_loop_nth [of "idx + 1" num arr j] u assms(3) jl by simp
  moreover have "int j + 1 < sint num \<longleftrightarrow> Suc j < ?n"
    by linarith
  ultimately show "close_gap_loop (idx + 1) num arr ! j
      = (if ?k \<le> j \<and> Suc j < ?n then arr ! Suc j else arr ! j)"
    using u by simp
qed

lemma live_asteroids_remove:
  assumes "0 \<le> sint idx" and "sint idx < sint (numAsteroids s)"
    and "nat (sint (numAsteroids s)) \<le> length (asteroids s)"
  shows "live_asteroids (remove_asteroid idx s)
      = take (nat (sint idx)) (live_asteroids s) @ drop (Suc (nat (sint idx))) (live_asteroids s)"
    and "sint (numAsteroids (remove_asteroid idx s)) = sint (numAsteroids s) - 1"
    and "length (asteroids (remove_asteroid idx s)) = length (asteroids s)"
proof -
  have "- 128 < sint (numAsteroids s)"
    using assms(1,2) by linarith
  then have m: "sint (numAsteroids s - 1) = sint (numAsteroids s) - 1"
    by (rule w8_sint_minus1)
  then have n: "nat (sint (numAsteroids s - 1)) = nat (sint (numAsteroids s)) - 1"
    by simp
  show "live_asteroids (remove_asteroid idx s)
      = take (nat (sint idx)) (live_asteroids s) @ drop (Suc (nat (sint idx))) (live_asteroids s)"
    using assms close_gap_live [OF assms] n
    by (simp add: live_asteroids_def remove_asteroid_def)
  show "sint (numAsteroids (remove_asteroid idx s)) = sint (numAsteroids s) - 1"
    using assms m by (simp add: remove_asteroid_def)
  show "length (asteroids (remove_asteroid idx s)) = length (asteroids s)"
    by (simp add: remove_asteroid_def close_gap_loop_length)
qed

lemma live_projectiles_remove:
  assumes "0 \<le> sint idx" and "sint idx < sint (numProjectiles s)"
    and "nat (sint (numProjectiles s)) \<le> length (projectiles s)"
  shows "live_projectiles (remove_projectile idx s)
      = take (nat (sint idx)) (live_projectiles s) @ drop (Suc (nat (sint idx))) (live_projectiles s)"
    and "sint (numProjectiles (remove_projectile idx s)) = sint (numProjectiles s) - 1"
    and "length (projectiles (remove_projectile idx s)) = length (projectiles s)"
proof -
  have "- 128 < sint (numProjectiles s)"
    using assms(1,2) by linarith
  then have m: "sint (numProjectiles s - 1) = sint (numProjectiles s) - 1"
    by (rule w8_sint_minus1)
  then have n: "nat (sint (numProjectiles s - 1)) = nat (sint (numProjectiles s)) - 1"
    by simp
  show "live_projectiles (remove_projectile idx s)
      = take (nat (sint idx)) (live_projectiles s) @ drop (Suc (nat (sint idx))) (live_projectiles s)"
    using assms close_gap_live [OF assms] n
    by (simp add: live_projectiles_def remove_projectile_def)
  show "sint (numProjectiles (remove_projectile idx s)) = sint (numProjectiles s) - 1"
    using assms m by (simp add: remove_projectile_def)
  show "length (projectiles (remove_projectile idx s)) = length (projectiles s)"
    by (simp add: remove_projectile_def close_gap_loop_length)
qed

section \<open>What an operation leaves alone\<close>

lemma remove_asteroid_frame [simp]:
  "basePosition (remove_asteroid i s) = basePosition s"
  "numProjectiles (remove_asteroid i s) = numProjectiles s"
  "projectiles (remove_asteroid i s) = projectiles s"
  "paused (remove_asteroid i s) = paused s"
  "score (remove_asteroid i s) = score s"
  "lives (remove_asteroid i s) = lives s"
  "rand_src (remove_asteroid i s) = rand_src s"
  "rand_pos (remove_asteroid i s) = rand_pos s"
  by (simp_all add: remove_asteroid_def)

lemma remove_projectile_frame [simp]:
  "basePosition (remove_projectile i s) = basePosition s"
  "numAsteroids (remove_projectile i s) = numAsteroids s"
  "asteroids (remove_projectile i s) = asteroids s"
  "paused (remove_projectile i s) = paused s"
  "score (remove_projectile i s) = score s"
  "lives (remove_projectile i s) = lives s"
  "rand_src (remove_projectile i s) = rand_src s"
  "rand_pos (remove_projectile i s) = rand_pos s"
  by (simp_all add: remove_projectile_def)

lemma check_base_hit_frame [simp]:
  "basePosition (snd (check_base_hit x y s)) = basePosition s"
  "numProjectiles (snd (check_base_hit x y s)) = numProjectiles s"
  "projectiles (snd (check_base_hit x y s)) = projectiles s"
  "paused (snd (check_base_hit x y s)) = paused s"
  "score (snd (check_base_hit x y s)) = score s"
  "rand_src (snd (check_base_hit x y s)) = rand_src s"
  "rand_pos (snd (check_base_hit x y s)) = rand_pos s"
  by (simp_all add: check_base_hit_def change_lives_def Let_def)

lemma check_all_base_hits_frame [simp]:
  "basePosition (check_all_base_hits s) = basePosition s"
  "numProjectiles (check_all_base_hits s) = numProjectiles s"
  "projectiles (check_all_base_hits s) = projectiles s"
  "paused (check_all_base_hits s) = paused s"
  "score (check_all_base_hits s) = score s"
  "rand_src (check_all_base_hits s) = rand_src s"
  "rand_pos (check_all_base_hits s) = rand_pos s"
  by (simp_all add: check_all_base_hits_def Let_def)

lemma check_asteroid_hit_frame [simp]:
  "basePosition (snd (check_asteroid_hit p a s)) = basePosition s"
  "paused (snd (check_asteroid_hit p a s)) = paused s"
  "lives (snd (check_asteroid_hit p a s)) = lives s"
  "rand_src (snd (check_asteroid_hit p a s)) = rand_src s"
  "rand_pos (snd (check_asteroid_hit p a s)) = rand_pos s"
  by (simp_all add: check_asteroid_hit_def add_to_score_def)

lemma distinct_remove_nth: "distinct xs \<Longrightarrow> distinct (take k xs @ drop (Suc k) xs)"
proof (induction xs arbitrary: k)
  case Nil
  then show ?case by simp
next
  case (Cons x xs)
  show ?case
  proof (cases k)
    case 0
    then show ?thesis using Cons.prems by simp
  next
    case (Suc k')
    then show ?thesis
      using Cons.prems Cons.IH [of k'] by (auto dest: in_set_takeD in_set_dropD)
  qed
qed

lemma well_formedD:
  assumes "well_formed MAX_PROJECTILES MAX_ASTEROIDS s"
  shows "nat (sint (numProjectiles s)) \<le> length (projectiles s)"
    and "nat (sint (numAsteroids s)) \<le> length (asteroids s)"
    and "0 \<le> sint (numProjectiles s)" and "0 \<le> sint (numAsteroids s)"
    and "sint (numProjectiles s) \<le> uint MAX_PROJECTILES"
    and "sint (numAsteroids s) \<le> uint MAX_ASTEROIDS"
    and "uint MAX_PROJECTILES \<le> 127" and "uint MAX_ASTEROIDS \<le> 127"
    and "length (projectiles s) = unat MAX_PROJECTILES"
    and "length (asteroids s) = unat MAX_ASTEROIDS"
proof -
  have a: "int (unat MAX_PROJECTILES) = uint MAX_PROJECTILES"
    "int (unat MAX_ASTEROIDS) = uint MAX_ASTEROIDS"
    by simp_all
  show "nat (sint (numProjectiles s)) \<le> length (projectiles s)"
    using assms a(1) unfolding well_formed_def by linarith
  show "nat (sint (numAsteroids s)) \<le> length (asteroids s)"
    using assms a(2) unfolding well_formed_def by linarith
qed (use assms in \<open>simp_all add: well_formed_def\<close>)

section \<open>The operations one at a time\<close>

text \<open>
  C7. \<open>move_base\<close>, with the base inside the field and a direction that is
  \<open>MOVE_LEFT\<close> or \<open>MOVE_RIGHT\<close>, returns 0 exactly when the base is at column 0
  moving left or at column \<open>FIELD_WIDTH - 1\<close> moving right, and then the state is
  unchanged. Otherwise it returns 1 and the base has moved by one column, left or right
  as asked, and is still inside the field.
\<close>

theorem move_base_boundary:
  assumes "direction = MOVE_LEFT \<or> direction = MOVE_RIGHT"
    and "0 \<le> sint (basePosition s)" and "sint (basePosition s) \<le> int FIELD_WIDTH - 1"
  shows "(fst (move_base direction s) = 0
           \<longleftrightarrow> (sint (basePosition s) = 0 \<and> direction = MOVE_LEFT)
               \<or> (sint (basePosition s) = int FIELD_WIDTH - 1 \<and> direction = MOVE_RIGHT))
    \<and> (fst (move_base direction s) = 0 \<longrightarrow> snd (move_base direction s) = s)
    \<and> (fst (move_base direction s) \<noteq> 0 \<longrightarrow>
          fst (move_base direction s) = 1
          \<and> sint (basePosition (snd (move_base direction s)))
              = sint (basePosition s) + (if direction = MOVE_RIGHT then 1 else - 1)
          \<and> 0 \<le> sint (basePosition (snd (move_base direction s)))
          \<and> sint (basePosition (snd (move_base direction s))) \<le> int FIELD_WIDTH - 1)"
proof -
  let ?b = "basePosition s"
  have z: "?b = 0 \<longleftrightarrow> sint ?b = 0"
    using word_eq_iff_signed [of ?b 0, where ?'a = int] by simp
  have s: "?b = 7 \<longleftrightarrow> sint ?b = 7"
    using word_eq_iff_signed [of ?b 7, where ?'a = int] by simp
  have up: "sint (?b + 1) = sint ?b + 1"
    using assms(3) by (intro w8_sint_plus1) (simp add: FIELD_WIDTH_def)
  have down: "sint (?b - 1) = sint ?b - 1"
    using assms(2) by (intro w8_sint_minus1) simp
  show ?thesis
    using assms z s up down
    by (auto simp: move_base_def MOVE_LEFT_def MOVE_RIGHT_def FIELD_WIDTH_def Let_def)
qed

theorem move_base_boundary_witness:
  "fst (move_base MOVE_RIGHT scenario_hit) = 1
   \<and> sint (basePosition (snd (move_base MOVE_RIGHT scenario_hit))) = 4
   \<and> fst (move_base MOVE_LEFT (scenario_hit\<lparr>basePosition := 0\<rparr>)) = 0
   \<and> snd (move_base MOVE_LEFT (scenario_hit\<lparr>basePosition := 0\<rparr>)) = scenario_hit\<lparr>basePosition := 0\<rparr>"
  using move_base_boundary [of MOVE_RIGHT scenario_hit]
    move_base_boundary [of MOVE_LEFT "scenario_hit\<lparr>basePosition := 0\<rparr>"]
  by (simp add: scenario_hit_def MOVE_LEFT_def MOVE_RIGHT_def FIELD_WIDTH_def)

text \<open>
  C9. \<open>remove_asteroid\<close> and \<open>remove_projectile\<close> with an index below 0 or not below
  the count leave the state as it is. With an index inside the live prefix the count goes
  down by one, the entries below the index stay, every live entry above it moves down by
  one place, and the live prefix is the old one without the entry at the index: no gap,
  and no entry twice if there was none before.
\<close>

theorem remove_compacts:
  "(sint i < 0 \<or> sint (numAsteroids s) \<le> sint i \<longrightarrow> remove_asteroid i s = s)
   \<and> (0 \<le> sint i \<and> sint i < sint (numAsteroids s)
        \<and> nat (sint (numAsteroids s)) \<le> length (asteroids s) \<longrightarrow>
        sint (numAsteroids (remove_asteroid i s)) = sint (numAsteroids s) - 1
        \<and> (\<forall>j. j < nat (sint i) \<longrightarrow> asteroids (remove_asteroid i s) ! j = asteroids s ! j)
        \<and> (\<forall>j. nat (sint i) < j \<and> j < nat (sint (numAsteroids s)) \<longrightarrow>
               asteroids (remove_asteroid i s) ! (j - 1) = asteroids s ! j)
        \<and> live_asteroids (remove_asteroid i s)
            = take (nat (sint i)) (live_asteroids s) @ drop (Suc (nat (sint i))) (live_asteroids s)
        \<and> (distinct (live_asteroids s) \<longrightarrow> distinct (live_asteroids (remove_asteroid i s))))
   \<and> (sint i < 0 \<or> sint (numProjectiles s) \<le> sint i \<longrightarrow> remove_projectile i s = s)
   \<and> (0 \<le> sint i \<and> sint i < sint (numProjectiles s)
        \<and> nat (sint (numProjectiles s)) \<le> length (projectiles s) \<longrightarrow>
        sint (numProjectiles (remove_projectile i s)) = sint (numProjectiles s) - 1
        \<and> (\<forall>j. j < nat (sint i) \<longrightarrow> projectiles (remove_projectile i s) ! j = projectiles s ! j)
        \<and> (\<forall>j. nat (sint i) < j \<and> j < nat (sint (numProjectiles s)) \<longrightarrow>
               projectiles (remove_projectile i s) ! (j - 1) = projectiles s ! j)
        \<and> live_projectiles (remove_projectile i s)
            = take (nat (sint i)) (live_projectiles s) @ drop (Suc (nat (sint i))) (live_projectiles s)
        \<and> (distinct (live_projectiles s) \<longrightarrow> distinct (live_projectiles (remove_projectile i s))))"
proof -
  have nth: "close_gap_loop (i + 1) num arr ! j = (if nat (sint i) \<le> j \<and> Suc j < nat (sint num) then arr ! Suc j else arr ! j)"
    if a: "0 \<le> sint i" "sint i < sint num" "nat (sint num) \<le> length arr" and j: "j < length arr"
    for num :: int8_t and arr :: "uint8_t list" and j
  proof -
    have "sint i < 127"
      using a(2) w8_sint_le [of num] by linarith
    then have "sint (i + 1) = sint i + 1"
      by (rule w8_sint_plus1)
    then have "unat (i + 1) = nat (sint i + 1)"
      using a(1) w8_unat_nat_sint [of "i + 1"] by simp
    then have u: "unat (i + 1) = Suc (nat (sint i))"
      using a(1) by linarith
    have "int j + 1 < sint num \<longleftrightarrow> Suc j < nat (sint num)"
      by linarith
    then show ?thesis
      using close_gap_loop_nth [of "i + 1" num arr j] u a(3) j by simp
  qed
  have low: "close_gap_loop (i + 1) num arr ! j = arr ! j"
    if "0 \<le> sint i" "sint i < sint num" "nat (sint num) \<le> length arr" "j < nat (sint i)"
    for num :: int8_t and arr :: "uint8_t list" and j
    using nth [of num arr j] that by simp
  have high: "close_gap_loop (i + 1) num arr ! (j - 1) = arr ! j"
    if "0 \<le> sint i" "sint i < sint num" "nat (sint num) \<le> length arr"
      "nat (sint i) < j" "j < nat (sint num)"
    for num :: int8_t and arr :: "uint8_t list" and j
  proof -
    from that(4) obtain j' where j': "j = Suc j'"
      by (cases j) auto
    have "j' < length arr" "nat (sint i) \<le> j'" "Suc j' < nat (sint num)"
      using that j' by linarith+
    then show ?thesis
      using nth [of num arr j'] that(1,2,3) j' by simp
  qed
  note d = distinct_remove_nth
  show ?thesis
    using live_asteroids_remove [of i s] live_projectiles_remove [of i s] d
      low [of "numAsteroids s" "asteroids s"] high [of "numAsteroids s" "asteroids s"]
      low [of "numProjectiles s" "projectiles s"] high [of "numProjectiles s" "projectiles s"]
    by (auto simp: remove_asteroid_def remove_projectile_def)
qed

theorem remove_compacts_witness:
  "asteroids (remove_asteroid 1 scenario_three) = [0x23, 0x45, 0x45, 0]
   \<and> sint (numAsteroids (remove_asteroid 1 scenario_three)) = 2
   \<and> live_asteroids (remove_asteroid 1 scenario_three) = [0x23, 0x45]
   \<and> remove_asteroid 5 scenario_three = scenario_three
   \<and> projectiles (remove_projectile 1 scenario_three) = [0x32, 0x55, 0x55, 0]
   \<and> sint (numProjectiles (remove_projectile 1 scenario_three)) = 2
   \<and> live_projectiles (remove_projectile 1 scenario_three) = [0x32, 0x55]
   \<and> remove_projectile (- 1) scenario_three = scenario_three"
  using remove_compacts [of 1 scenario_three] remove_compacts [of 5 scenario_three]
    remove_compacts [of "- 1" scenario_three]
  by (simp add: scenario_three_def live_asteroids_def live_projectiles_def remove_asteroid_def
      remove_projectile_def close_gap_loop.simps)

text \<open>
  C5. With the base at column 3, no projectile in flight and one asteroid, at \<open>(3,2)\<close>,
  \<open>fire_projectile\<close> returns 1; afterwards no asteroid is at \<open>(3,2)\<close>, no asteroid
  and no projectile is live, and the score is one higher.
\<close>

theorem fire_projectile_hits_at_once:
  assumes "basePosition s = 3" and "numProjectiles s = 0" and "numAsteroids s = 1"
    and "asteroids s ! 0 = GAME_POSITION 3 2" and "0 < uint MAX_PROJECTILES"
  shows "fst (fire_projectile MAX_PROJECTILES s) = 1
    \<and> asteroid_at 3 2 (snd (fire_projectile MAX_PROJECTILES s)) = - 1
    \<and> numAsteroids (snd (fire_projectile MAX_PROJECTILES s)) = 0
    \<and> numProjectiles (snd (fire_projectile MAX_PROJECTILES s)) = 0
    \<and> live_asteroids (snd (fire_projectile MAX_PROJECTILES s)) = []
    \<and> live_projectiles (snd (fire_projectile MAX_PROJECTILES s)) = []
    \<and> score (snd (fire_projectile MAX_PROJECTILES s)) = score s + 1"
  using assms
  by (simp add: fire_projectile_def projectile_at_def asteroid_at_def position_at_loop.simps
      check_asteroid_hit_def remove_projectile_def remove_asteroid_def close_gap_loop.simps
      add_to_score_def live_asteroids_def live_projectiles_def Let_def)

theorem fire_projectile_hits_at_once_witness:
  "fst (fire_projectile 4 scenario_hit) = 1
    \<and> asteroid_at 3 2 (snd (fire_projectile 4 scenario_hit)) = - 1
    \<and> numAsteroids (snd (fire_projectile 4 scenario_hit)) = 0
    \<and> numProjectiles (snd (fire_projectile 4 scenario_hit)) = 0
    \<and> score (snd (fire_projectile 4 scenario_hit)) = 1"
  using fire_projectile_hits_at_once [of scenario_hit 4]
  by (simp add: scenario_hit_def GAME_POSITION_def)

text \<open>
  C8. In a well-formed state \<open>fire_projectile\<close> returns 1 if fewer than
  \<open>MAX_PROJECTILES\<close> projectiles are live and none of them is in the cell
  \<open>(basePosition, 2)\<close>, and 0 otherwise; when it returns 0 the state is unchanged.
\<close>

theorem fire_projectile_iff:
  assumes "well_formed MAX_PROJECTILES MAX_ASTEROIDS s"
  shows "(fst (fire_projectile MAX_PROJECTILES s) \<noteq> 0
           \<longleftrightarrow> sint (numProjectiles s) < uint MAX_PROJECTILES
               \<and> GAME_POSITION (basePosition s) 2 \<notin> set (live_projectiles s))
    \<and> (fst (fire_projectile MAX_PROJECTILES s) = 0 \<or> fst (fire_projectile MAX_PROJECTILES s) = 1)
    \<and> (fst (fire_projectile MAX_PROJECTILES s) = 0 \<longrightarrow> snd (fire_projectile MAX_PROJECTILES s) = s)"
proof -
  have "projectile_at (basePosition s) 2 s = - 1
      \<longleftrightarrow> GAME_POSITION (basePosition s) 2 \<notin> set (live_projectiles s)"
    unfolding projectile_at_def live_projectiles_def
    by (rule position_at_absent) (rule well_formedD(1) [OF assms])
  then show ?thesis
    by (auto simp: fire_projectile_def Let_def split_beta)
qed

theorem fire_projectile_iff_witness:
  "fst (fire_projectile 4 scenario_three) = 0
   \<and> snd (fire_projectile 4 scenario_three) = scenario_three
   \<and> GAME_POSITION (basePosition scenario_three) 2 \<in> set (live_projectiles scenario_three)
   \<and> fst (fire_projectile 4 scenario_hit) = 1
   \<and> GAME_POSITION (basePosition scenario_hit) 2 \<notin> set (live_projectiles scenario_hit)"
  using fire_projectile_iff [of 4 4 scenario_three] fire_projectile_iff [of 4 4 scenario_hit]
  by (auto simp: well_formed_def scenario_three_def scenario_hit_def live_projectiles_def
      GAME_POSITION_def)

section \<open>Positions as column and row\<close>

lemma w8_and_15: "(w :: 8 word) AND 15 = take_bit 4 w"
  by (simp add: take_bit_eq_mask mask_eq_exp_minus_1)

lemma unat_and_15: "unat ((w :: 8 word) AND 15) = unat w mod 16"
  by (simp add: w8_and_15 take_bit_eq_mod unat_mod_distrib)

lemma GET_Y_GAME_POSITION: "GET_Y_POSITION (GAME_POSITION x y) = y AND 15"
  unfolding GAME_POSITION_def GET_Y_POSITION_def w8_and_15
  by (rule bit_eqI) (auto simp: bit_simps)

lemma GET_X_GAME_POSITION: "GET_X_POSITION (GAME_POSITION x y) = x AND 15"
  unfolding GAME_POSITION_def GET_X_POSITION_def w8_and_15
  by (rule bit_eqI) (auto simp: bit_simps)

lemma GAME_POSITION_GET: "GAME_POSITION (GET_X_POSITION p) (GET_Y_POSITION p) = p"
  unfolding GAME_POSITION_def GET_X_POSITION_def GET_Y_POSITION_def w8_and_15
  by (rule bit_eqI) (auto simp: bit_simps)

lemma unat_GET_Y: "unat (GET_Y_POSITION p) = unat p mod 16"
  by (simp add: GET_Y_POSITION_def unat_and_15)

lemma GET_X_and_15: "GET_X_POSITION p AND 15 = GET_X_POSITION p"
  unfolding GET_X_POSITION_def w8_and_15
  by (rule bit_eqI) (auto simp: bit_simps dest: bit_imp_le_length)

lemma GET_Y_and_15: "GET_Y_POSITION p AND 15 = GET_Y_POSITION p"
  unfolding GET_Y_POSITION_def w8_and_15
  by simp


lemma unat_GET_Y_less: "unat (GET_Y_POSITION p) < 16"
  by (simp add: unat_GET_Y)

text \<open>One row up and one row down, as the two advance loops compute them.\<close>

lemma GET_Y_up:
  assumes "unat (GET_Y_POSITION p) \<noteq> 15"
  shows "unat (GET_Y_POSITION (GAME_POSITION (GET_X_POSITION p) (GET_Y_POSITION p + 1)))
    = Suc (unat (GET_Y_POSITION p))"
proof -
  have "unat (GET_Y_POSITION p) < 15"
    using assms unat_GET_Y_less [of p] by linarith
  then have "unat (GET_Y_POSITION p + 1) = unat (GET_Y_POSITION p) + 1"
    by (simp add: w8_unat_plus1)
  then show ?thesis
    using \<open>unat (GET_Y_POSITION p) < 15\<close>
    by (simp add: GET_Y_GAME_POSITION unat_and_15)
qed

lemma GET_Y_down:
  assumes "unat (GET_Y_POSITION p) \<noteq> 0"
  shows "unat (GET_Y_POSITION (GAME_POSITION (GET_X_POSITION p) (GET_Y_POSITION p - 1)))
    = unat (GET_Y_POSITION p) - 1"
proof -
  have "unat (GET_Y_POSITION p - 1) = unat (GET_Y_POSITION p) - 1"
    using assms by (simp add: unat_minus_one unat_eq_zero)
  then show ?thesis
    using unat_GET_Y_less [of p]
    by (simp add: GET_Y_GAME_POSITION unat_and_15)
qed

lemma GET_X_moved [simp]:
  "GET_X_POSITION (GAME_POSITION (GET_X_POSITION p) y) = GET_X_POSITION p"
  by (simp add: GET_X_GAME_POSITION GET_X_and_15)

lemma position_eqI:
  assumes "GET_X_POSITION p = GET_X_POSITION q" and "GET_Y_POSITION p = GET_Y_POSITION q"
  shows "p = q"
  by (metis GAME_POSITION_GET assms)

section \<open>The two advance loops\<close>

text \<open>
  A rule for each loop: a property that holds at the start and that each of the three
  branches of the body keeps holds when the loop returns, and the loop does return. The
  count less the index goes down in every pass: a removal lowers the count, the third
  branch raises the index.
\<close>

lemma check_asteroid_hit_miss:
  "projectileIndex = - 1 \<or> asteroidHit = - 1
     \<Longrightarrow> check_asteroid_hit projectileIndex asteroidHit s = (0, s)"
  by (simp add: check_asteroid_hit_def)

lemma check_asteroid_hit_hit:
  "projectileIndex \<noteq> - 1 \<Longrightarrow> asteroidHit \<noteq> - 1
     \<Longrightarrow> check_asteroid_hit projectileIndex asteroidHit s
         = (1, add_to_score 1 (remove_asteroid asteroidHit (remove_projectile projectileIndex s)))"
  by (simp add: check_asteroid_hit_def)

lemma add_to_score_frame [simp]:
  "basePosition (add_to_score d s) = basePosition s"
  "numProjectiles (add_to_score d s) = numProjectiles s"
  "projectiles (add_to_score d s) = projectiles s"
  "numAsteroids (add_to_score d s) = numAsteroids s"
  "asteroids (add_to_score d s) = asteroids s"
  "paused (add_to_score d s) = paused s"
  "lives (add_to_score d s) = lives s"
  "rand_src (add_to_score d s) = rand_src s"
  "rand_pos (add_to_score d s) = rand_pos s"
  "score (add_to_score d s) = score s + d"
  by (simp_all add: add_to_score_def)

lemma numAsteroids_remove_asteroid:
  "0 \<le> sint i \<Longrightarrow> sint i < sint (numAsteroids s)
     \<Longrightarrow> sint (numAsteroids (remove_asteroid i s)) = sint (numAsteroids s) - 1"
  by (simp add: remove_asteroid_def w8_sint_minus1)

lemma numProjectiles_remove_projectile:
  "0 \<le> sint i \<Longrightarrow> sint i < sint (numProjectiles s)
     \<Longrightarrow> sint (numProjectiles (remove_projectile i s)) = sint (numProjectiles s) - 1"
  by (simp add: remove_projectile_def w8_sint_minus1)

lemma advance_asteroids_loop_rule:
  fixes I :: "uint8_t \<Rightarrow> game \<Rightarrow> bool"
  assumes init: "I i s"
    and fell: "\<And>i s. I i s \<Longrightarrow> uint i < sint (numAsteroids s)
        \<Longrightarrow> sint (GET_Y_POSITION (asteroids s ! unat i) - 1) < 0
        \<Longrightarrow> I i (remove_asteroid i s)"
    and hit: "\<And>i s. I i s \<Longrightarrow> uint i < sint (numAsteroids s)
        \<Longrightarrow> \<not> sint (GET_Y_POSITION (asteroids s ! unat i) - 1) < 0
        \<Longrightarrow> projectile_at (GET_X_POSITION (asteroids s ! unat i))
              (GET_Y_POSITION (asteroids s ! unat i) - 1) s \<noteq> - 1
        \<Longrightarrow> I i (add_to_score 1 (remove_asteroid i (remove_projectile
              (projectile_at (GET_X_POSITION (asteroids s ! unat i))
                (GET_Y_POSITION (asteroids s ! unat i) - 1) s) s)))"
    and move: "\<And>i s. I i s \<Longrightarrow> uint i < sint (numAsteroids s)
        \<Longrightarrow> \<not> sint (GET_Y_POSITION (asteroids s ! unat i) - 1) < 0
        \<Longrightarrow> projectile_at (GET_X_POSITION (asteroids s ! unat i))
              (GET_Y_POSITION (asteroids s ! unat i) - 1) s = - 1
        \<Longrightarrow> I (i + 1) (s\<lparr>asteroids := (asteroids s)[unat i :=
              GAME_POSITION (GET_X_POSITION (asteroids s ! unat i))
                (GET_Y_POSITION (asteroids s ! unat i) - 1)]\<rparr>)"
  shows "\<exists>i' s'. advance_asteroids_loop i s = Some s' \<and> I i' s'
      \<and> \<not> uint i' < sint (numAsteroids s')"
  using init
proof (induction "nat (sint (numAsteroids s) - uint i)" arbitrary: i s rule: less_induct)
  case less
  show ?case
  proof (cases "uint i < sint (numAsteroids s)")
    case False
    then have "advance_asteroids_loop i s = Some s"
      by (subst advance_asteroids_loop.simps) simp
    then show ?thesis
      using False less.prems by blast
  next
    case True
    note idx = w8_loop_index [OF True]
    let ?p = "asteroids s ! unat i"
    let ?x = "GET_X_POSITION ?p" and ?y = "GET_Y_POSITION ?p - 1"
    show ?thesis
    proof (cases "sint ?y < 0")
      case fall: True
      let ?s = "remove_asteroid i s"
      have eq: "advance_asteroids_loop i s = advance_asteroids_loop i ?s"
        using True fall by (subst advance_asteroids_loop.simps) (simp add: Let_def)
      have "sint (numAsteroids ?s) = sint (numAsteroids s) - 1"
        using True idx(4) by (intro numAsteroids_remove_asteroid) simp_all
      then have "nat (sint (numAsteroids ?s) - uint i) < nat (sint (numAsteroids s) - uint i)"
        using True by linarith
      from less.hyps [OF this fell [OF less.prems True fall]] show ?thesis
        unfolding eq .
    next
      case stay: False
      show ?thesis
      proof (cases "projectile_at ?x ?y s = - 1")
        case free: True
        let ?s = "s\<lparr>asteroids := (asteroids s)[unat i := GAME_POSITION ?x ?y]\<rparr>"
        have eq: "advance_asteroids_loop i s = advance_asteroids_loop (i + 1) ?s"
          using True stay free
          by (subst advance_asteroids_loop.simps) (simp add: Let_def check_asteroid_hit_miss)
        have "nat (sint (numAsteroids ?s) - uint (i + 1)) < nat (sint (numAsteroids s) - uint i)"
          using True idx(2) by simp
        from less.hyps [OF this move [OF less.prems True stay free]] show ?thesis
          unfolding eq .
      next
        case struck: False
        let ?s = "add_to_score 1 (remove_asteroid i (remove_projectile (projectile_at ?x ?y s) s))"
        have eq: "advance_asteroids_loop i s = advance_asteroids_loop i ?s"
          using True stay struck idx(3)
          by (subst advance_asteroids_loop.simps) (simp add: Let_def check_asteroid_hit_hit)
        have "sint (numAsteroids ?s) = sint (numAsteroids s) - 1"
          using True idx(4) numAsteroids_remove_asteroid
            [of i "remove_projectile (projectile_at ?x ?y s) s"] by simp
        then have "nat (sint (numAsteroids ?s) - uint i) < nat (sint (numAsteroids s) - uint i)"
          using True by linarith
        from less.hyps [OF this hit [OF less.prems True stay struck]] show ?thesis
          unfolding eq .
      qed
    qed
  qed
qed

lemma advance_projectiles_loop_rule:
  fixes I :: "int8_t \<Rightarrow> game \<Rightarrow> bool"
  assumes init: "I pn s"
    and nonneg: "\<And>pn s. I pn s \<Longrightarrow> 0 \<le> sint pn"
    and gone: "\<And>pn s. I pn s \<Longrightarrow> sint pn < sint (numProjectiles s)
        \<Longrightarrow> unat (GET_Y_POSITION (projectiles s ! nat (sint pn)) + 1) = FIELD_HEIGHT
        \<Longrightarrow> I pn (remove_projectile pn s)"
    and hit: "\<And>pn s. I pn s \<Longrightarrow> sint pn < sint (numProjectiles s)
        \<Longrightarrow> unat (GET_Y_POSITION (projectiles s ! nat (sint pn)) + 1) \<noteq> FIELD_HEIGHT
        \<Longrightarrow> asteroid_at (GET_X_POSITION (projectiles s ! nat (sint pn)))
              (GET_Y_POSITION (projectiles s ! nat (sint pn)) + 1) s \<noteq> - 1
        \<Longrightarrow> I pn (add_to_score 1 (remove_asteroid
              (asteroid_at (GET_X_POSITION (projectiles s ! nat (sint pn)))
                (GET_Y_POSITION (projectiles s ! nat (sint pn)) + 1) s)
              (remove_projectile pn s)))"
    and move: "\<And>pn s. I pn s \<Longrightarrow> sint pn < sint (numProjectiles s)
        \<Longrightarrow> unat (GET_Y_POSITION (projectiles s ! nat (sint pn)) + 1) \<noteq> FIELD_HEIGHT
        \<Longrightarrow> asteroid_at (GET_X_POSITION (projectiles s ! nat (sint pn)))
              (GET_Y_POSITION (projectiles s ! nat (sint pn)) + 1) s = - 1
        \<Longrightarrow> I (pn + 1) (s\<lparr>projectiles := (projectiles s)[nat (sint pn) :=
              GAME_POSITION (GET_X_POSITION (projectiles s ! nat (sint pn)))
                (GET_Y_POSITION (projectiles s ! nat (sint pn)) + 1)]\<rparr>)"
  shows "\<exists>pn' s'. advance_projectiles_loop pn s = Some s' \<and> I pn' s'
      \<and> \<not> sint pn' < sint (numProjectiles s')"
  using init
proof (induction "nat (sint (numProjectiles s) - sint pn)" arbitrary: pn s rule: less_induct)
  case less
  show ?case
  proof (cases "sint pn < sint (numProjectiles s)")
    case False
    then have "advance_projectiles_loop pn s = Some s"
      by (subst advance_projectiles_loop.simps) simp
    then show ?thesis
      using False less.prems by blast
  next
    case True
    have pos: "0 \<le> sint pn"
      by (rule nonneg [OF less.prems])
    have ne: "pn \<noteq> - 1"
      using pos by auto
    have "sint pn < 127"
      using True w8_sint_le [of "numProjectiles s"] by linarith
    then have suc: "sint (pn + 1) = sint pn + 1"
      by (rule w8_sint_plus1)
    let ?p = "projectiles s ! nat (sint pn)"
    let ?x = "GET_X_POSITION ?p" and ?y = "GET_Y_POSITION ?p + 1"
    show ?thesis
    proof (cases "unat ?y = FIELD_HEIGHT")
      case top: True
      let ?s = "remove_projectile pn s"
      have eq: "advance_projectiles_loop pn s = advance_projectiles_loop pn ?s"
        using True top by (subst advance_projectiles_loop.simps) (simp add: Let_def)
      have "sint (numProjectiles ?s) = sint (numProjectiles s) - 1"
        using True pos by (intro numProjectiles_remove_projectile)
      then have "nat (sint (numProjectiles ?s) - sint pn) < nat (sint (numProjectiles s) - sint pn)"
        using True by linarith
      from less.hyps [OF this gone [OF less.prems True top]] show ?thesis
        unfolding eq .
    next
      case inside: False
      show ?thesis
      proof (cases "asteroid_at ?x ?y s = - 1")
        case free: True
        let ?s = "s\<lparr>projectiles := (projectiles s)[nat (sint pn) := GAME_POSITION ?x ?y]\<rparr>"
        have eq: "advance_projectiles_loop pn s = advance_projectiles_loop (pn + 1) ?s"
          using True inside free
          by (subst advance_projectiles_loop.simps) (simp add: Let_def check_asteroid_hit_miss)
        have "nat (sint (numProjectiles ?s) - sint (pn + 1))
            < nat (sint (numProjectiles s) - sint pn)"
          using True suc by simp
        from less.hyps [OF this move [OF less.prems True inside free]] show ?thesis
          unfolding eq .
      next
        case struck: False
        let ?s = "add_to_score 1 (remove_asteroid (asteroid_at ?x ?y s) (remove_projectile pn s))"
        have eq: "advance_projectiles_loop pn s = advance_projectiles_loop pn ?s"
          using True inside struck ne
          by (subst advance_projectiles_loop.simps) (simp add: Let_def check_asteroid_hit_hit)
        have "sint (numProjectiles ?s) = sint (numProjectiles s) - 1"
          using True pos numProjectiles_remove_projectile [of pn s] by simp
        then have "nat (sint (numProjectiles ?s) - sint pn)
            < nat (sint (numProjectiles s) - sint pn)"
          using True by linarith
        from less.hyps [OF this hit [OF less.prems True inside struck]] show ?thesis
          unfolding eq .
      qed
    qed
  qed
qed

text \<open>
  \<open>redraw_base\<close> gives the state back as it was, and it returns when the three columns
  of the base fit in a signed byte.
\<close>

lemma redraw_base_loop_same:
  "redraw_base_loop x s = Some s' \<Longrightarrow> s' = s"
proof -
  assume r: "redraw_base_loop x s = Some s'"
  have "(case (x, s) of (x, s) \<Rightarrow> \<lambda>s'. s' = s) s'"
  proof (rule redraw_base_loop.raw_induct [where P = "\<lambda>x s s'. s' = s"])
    fix f :: "int8_t \<Rightarrow> game \<Rightarrow> game option" and x s xa
    assume "\<And>s b y. f s b = Some y \<Longrightarrow> y = b"
      and "(if sint x \<le> sint (basePosition s) + 1 then f (x + 1) s else Some s) = Some xa"
    then show "xa = s"
      by (auto split: if_splits)
  next
    show "(case (x, s) of (x, xa) \<Rightarrow> redraw_base_loop x xa) = Some s'"
      using r by simp
  qed
  then show "s' = s"
    by simp
qed

lemma redraw_base_same: "redraw_base s = Some s' \<Longrightarrow> s' = s"
  unfolding redraw_base_def by (rule redraw_base_loop_same)

lemma redraw_base_returns:
  assumes "- 128 < sint (basePosition s)" and "sint (basePosition s) < 126"
  shows "redraw_base s = Some s"
proof -
  let ?b = "basePosition s"
  have m1: "sint (?b - 1) = sint ?b - 1"
    by (rule w8_sint_minus1 [OF assms(1)])
  have "sint (?b - 1) < 127"
    using m1 assms(2) by linarith
  from w8_sint_plus1 [OF this] have p0: "sint (?b - 1 + 1) = sint ?b"
    using m1 by simp
  have "sint ?b < 127"
    using assms(2) by linarith
  from w8_sint_plus1 [OF this] have p1: "sint (?b - 1 + 1 + 1) = sint ?b + 1"
    by simp
  have "sint (?b + 1) < 127"
    using p1 assms(2) by simp
  from w8_sint_plus1 [OF this] have p2: "sint (?b - 1 + 1 + 1 + 1) = sint ?b + 2"
    using p1 by simp
  have "redraw_base_loop (?b - 1 + 1 + 1 + 1) s = Some s"
    by (subst redraw_base_loop.simps) (simp only: p2, simp)
  then have "redraw_base_loop (?b - 1 + 1 + 1) s = Some s"
    by (subst redraw_base_loop.simps) (simp only: p1, simp)
  then have "redraw_base_loop (?b - 1 + 1) s = Some s"
    by (subst redraw_base_loop.simps) (simp only: p0, simp)
  then have "redraw_base_loop (?b - 1) s = Some s"
    by (subst redraw_base_loop.simps) (simp only: m1, simp)
  then show ?thesis
    by (simp add: redraw_base_def)
qed

text \<open>The definitions a concrete run unfolds.\<close>

text \<open>
  With the base at column 126 or 127 the loop of \<open>redraw_base\<close> has no last pass.
\<close>

lemma redraw_base_loop_in_range:
  "redraw_base_loop x s = Some s' \<Longrightarrow> sint (basePosition s) < 126"
proof -
  assume r: "redraw_base_loop x s = Some s'"
  have "(case (x, s) of (x, s) \<Rightarrow> \<lambda>s'. sint (basePosition s) < 126) s'"
  proof (rule redraw_base_loop.raw_induct [where P = "\<lambda>x s s'. sint (basePosition s) < 126"])
    fix f :: "int8_t \<Rightarrow> game \<Rightarrow> game option" and x s xa
    assume "\<And>s b y. f s b = Some y \<Longrightarrow> sint (basePosition b) < 126"
      and "(if sint x \<le> sint (basePosition s) + 1 then f (x + 1) s else Some s) = Some xa"
    then show "sint (basePosition s) < 126"
      using w8_sint_le [of x] by (auto split: if_splits)
  next
    show "(case (x, s) of (x, xa) \<Rightarrow> redraw_base_loop x xa) = Some s'"
      using r by simp
  qed
  then show "sint (basePosition s) < 126"
    by simp
qed

lemma redraw_base_never_returns:
  "126 \<le> sint (basePosition s) \<Longrightarrow> redraw_base s = None"
  using redraw_base_loop_in_range [of "basePosition s - 1" s]
  by (cases "redraw_base s") (auto simp: redraw_base_def)

lemma check_all_base_hits_nested:
  "check_all_base_hits s =
     snd (check_base_hit (basePosition s + 1) 0
       (snd (check_base_hit (basePosition s) 0
         (snd (check_base_hit (basePosition s - 1) 0
           (snd (check_base_hit (basePosition s) 1 s)))))))"
  by (simp add: check_all_base_hits_def Let_def)

lemmas eval_defs = advance_projectiles_def advance_projectiles_loop.simps
      advance_asteroids_def advance_asteroids_loop.simps
      redraw_base_def redraw_base_loop.simps
      GET_X_POSITION_def GET_Y_POSITION_def FIELD_HEIGHT_def FIELD_WIDTH_def Let_def asteroid_at_def
      projectile_at_def
      position_at_loop.simps GAME_POSITION_def check_asteroid_hit_def remove_projectile_def
      remove_asteroid_def close_gap_loop.simps add_missing_asteroids_def
      add_missing_asteroids_loop.simps add_asteroid_in_rows_def add_asteroid_loop.simps random_def
      live_projectiles_def live_asteroids_def check_all_base_hits_nested check_base_hit_def
      add_to_score_def change_lives_def

section \<open>Spawning, base hits and replenishment\<close>

lemma asteroid_at_absent:
  assumes "nat (sint (numAsteroids s)) \<le> length (asteroids s)"
  shows "asteroid_at x y s = - 1 \<longleftrightarrow> GAME_POSITION x y \<notin> set (live_asteroids s)"
  unfolding asteroid_at_def live_asteroids_def
  by (rule position_at_absent [OF assms])

lemma spawn_cell_shift:
  "spawn_cell b (s\<lparr>rand_pos := Suc (Suc (rand_pos s))\<rparr>) k = spawn_cell b s (Suc k)"
  by (simp add: spawn_cell_def)

lemma live_asteroids_rand_pos [simp]:
  "live_asteroids (s\<lparr>rand_pos := n\<rparr>) = live_asteroids s"
  by (simp add: live_asteroids_def)

lemma add_asteroid_loop_step:
  assumes "nat (sint (numAsteroids s)) \<le> length (asteroids s)"
  shows "add_asteroid_loop b i a s =
    (let s2 = s\<lparr>rand_pos := Suc (Suc (rand_pos s))\<rparr> in
     if spawn_cell b s 0 \<notin> set (live_asteroids s) then
       s2\<lparr>asteroids := (asteroids s)[unat i := spawn_cell b s 0],
          numAsteroids := numAsteroids s + 1\<rparr>
     else if unat (a + 1) \<le> 8 * 16 then add_asteroid_loop b i (a + 1) s2
     else s2)"
proof -
  let ?s2 = "s\<lparr>rand_pos := Suc (Suc (rand_pos s))\<rparr>"
  have "nat (sint (numAsteroids ?s2)) \<le> length (asteroids ?s2)"
    using assms by simp
  from asteroid_at_absent [OF this] show ?thesis
    by (subst add_asteroid_loop.simps) (simp add: random_def Let_def spawn_cell_def)
qed

lemma add_asteroid_loop_exhaust:
  assumes "nat (sint (numAsteroids s)) \<le> length (asteroids s)" and "unat a \<le> 128"
    and "\<forall>k<129 - unat a. spawn_cell b s k \<in> set (live_asteroids s)"
  shows "add_asteroid_loop b i a s = s\<lparr>rand_pos := rand_pos s + 2 * (129 - unat a)\<rparr>"
  using assms
proof (induction "128 - unat a" arbitrary: a s)
  case 0
  then have a: "unat a = 128"
    by simp
  then have "unat (a + 1) = 129"
    by (simp add: w8_unat_plus1)
  moreover have "spawn_cell b s 0 \<in> set (live_asteroids s)"
    using "0.prems"(3) a by simp
  ultimately show ?case
    using a by (subst add_asteroid_loop_step [OF "0.prems"(1)]) simp
next
  case (Suc n)
  then have a: "unat a < 128"
    by linarith
  then have a1: "unat (a + 1) = Suc (unat a)"
    by (simp add: w8_unat_plus1)
  let ?s2 = "s\<lparr>rand_pos := Suc (Suc (rand_pos s))\<rparr>"
  have first: "spawn_cell b s 0 \<in> set (live_asteroids s)"
    using Suc.prems(3) a by simp
  have rest: "\<forall>k<129 - unat (a + 1). spawn_cell b ?s2 k \<in> set (live_asteroids ?s2)"
    using Suc.prems(3) a1 by (simp add: spawn_cell_shift)
  have "add_asteroid_loop b i (a + 1) ?s2
      = ?s2\<lparr>rand_pos := rand_pos ?s2 + 2 * (129 - unat (a + 1))\<rparr>"
  proof (rule Suc.hyps(1))
    show "n = 128 - unat (a + 1)"
      using Suc.hyps(2) a1 by linarith
    show "nat (sint (numAsteroids ?s2)) \<le> length (asteroids ?s2)"
      using Suc.prems(1) by simp
    show "unat (a + 1) \<le> 128"
      using a a1 by linarith
    show "\<forall>k<129 - unat (a + 1). spawn_cell b ?s2 k \<in> set (live_asteroids ?s2)"
      by (rule rest)
  qed
  moreover have "2 + 2 * (129 - unat (a + 1)) = 2 * (129 - unat a)"
    using a a1 by linarith
  ultimately show ?case
    using first a a1 by (subst add_asteroid_loop_step [OF Suc.prems(1)]) simp
qed

lemma add_asteroid_loop_finds:
  assumes "nat (sint (numAsteroids s)) \<le> length (asteroids s)" and "k < 129 - unat a"
    and "spawn_cell b s k \<notin> set (live_asteroids s)"
    and "\<forall>j<k. spawn_cell b s j \<in> set (live_asteroids s)"
  shows "add_asteroid_loop b i a s
    = s\<lparr>rand_pos := rand_pos s + 2 * Suc k,
         asteroids := (asteroids s)[unat i := spawn_cell b s k],
         numAsteroids := numAsteroids s + 1\<rparr>"
  using assms
proof (induction k arbitrary: a s)
  case 0
  then show ?case
    by (subst add_asteroid_loop_step [OF "0.prems"(1)]) simp
next
  case (Suc k)
  then have a: "unat a < 128"
    by linarith
  then have a1: "unat (a + 1) = Suc (unat a)"
    by (simp add: w8_unat_plus1)
  let ?s2 = "s\<lparr>rand_pos := Suc (Suc (rand_pos s))\<rparr>"
  have first: "spawn_cell b s 0 \<in> set (live_asteroids s)"
    using Suc.prems(4) by simp
  have "add_asteroid_loop b i (a + 1) ?s2
      = ?s2\<lparr>rand_pos := rand_pos ?s2 + 2 * Suc k,
           asteroids := (asteroids ?s2)[unat i := spawn_cell b ?s2 k],
           numAsteroids := numAsteroids ?s2 + 1\<rparr>"
  proof (rule Suc.IH)
    show "nat (sint (numAsteroids ?s2)) \<le> length (asteroids ?s2)"
      using Suc.prems(1) by simp
    show "k < 129 - unat (a + 1)"
      using Suc.prems(2) a1 by linarith
    show "spawn_cell b ?s2 k \<notin> set (live_asteroids ?s2)"
      using Suc.prems(3) by (simp add: spawn_cell_shift)
    show "\<forall>j<k. spawn_cell b ?s2 j \<in> set (live_asteroids ?s2)"
      using Suc.prems(4) by (simp add: spawn_cell_shift)
  qed
  then show ?case
    using first a a1
    by (subst add_asteroid_loop_step [OF Suc.prems(1)]) (simp add: spawn_cell_shift)
qed

lemma add_asteroid_loop_frame:
  "basePosition (add_asteroid_loop b i a s) = basePosition s
   \<and> numProjectiles (add_asteroid_loop b i a s) = numProjectiles s
   \<and> projectiles (add_asteroid_loop b i a s) = projectiles s
   \<and> paused (add_asteroid_loop b i a s) = paused s
   \<and> score (add_asteroid_loop b i a s) = score s
   \<and> lives (add_asteroid_loop b i a s) = lives s
   \<and> rand_src (add_asteroid_loop b i a s) = rand_src s
   \<and> length (asteroids (add_asteroid_loop b i a s)) = length (asteroids s)"
proof (induction b i a s rule: add_asteroid_loop.induct)
  case (1 blockedRows i attempts s)
  show ?case
    by (subst (1 2 3 4 5 6 7 8) add_asteroid_loop.simps)
       (use 1 in \<open>simp add: random_def Let_def\<close>)
qed

lemma add_asteroid_in_rows_frame [simp]:
  "basePosition (add_asteroid_in_rows m b s) = basePosition s"
  "numProjectiles (add_asteroid_in_rows m b s) = numProjectiles s"
  "projectiles (add_asteroid_in_rows m b s) = projectiles s"
  "paused (add_asteroid_in_rows m b s) = paused s"
  "score (add_asteroid_in_rows m b s) = score s"
  "lives (add_asteroid_in_rows m b s) = lives s"
  "rand_src (add_asteroid_in_rows m b s) = rand_src s"
  "length (asteroids (add_asteroid_in_rows m b s)) = length (asteroids s)"
  using add_asteroid_loop_frame [of b "numAsteroids s" 0 s]
  by (simp_all add: add_asteroid_in_rows_def)

lemma live_projectiles_add_asteroid_in_rows [simp]:
  "live_projectiles (add_asteroid_in_rows m b s) = live_projectiles s"
  by (simp add: live_projectiles_def)

lemma add_asteroid_in_rows_full:
  "sint (numAsteroids s) = uint MAX_ASTEROIDS \<Longrightarrow> add_asteroid_in_rows MAX_ASTEROIDS b s = s"
  by (simp add: add_asteroid_in_rows_def)

lemma add_asteroid_in_rows_gives_up:
  assumes "nat (sint (numAsteroids s)) \<le> length (asteroids s)"
    and "sint (numAsteroids s) \<noteq> uint MAX_ASTEROIDS"
    and "\<forall>k<129. spawn_cell b s k \<in> set (live_asteroids s)"
  shows "add_asteroid_in_rows MAX_ASTEROIDS b s = s\<lparr>rand_pos := rand_pos s + 258\<rparr>"
  using add_asteroid_loop_exhaust [of s 0 b "numAsteroids s"] assms
  by (simp add: add_asteroid_in_rows_def)

lemma add_asteroid_in_rows_spawns:
  assumes "nat (sint (numAsteroids s)) \<le> length (asteroids s)"
    and "sint (numAsteroids s) \<noteq> uint MAX_ASTEROIDS"
    and "k < 129" and "spawn_cell b s k \<notin> set (live_asteroids s)"
    and "\<forall>j<k. spawn_cell b s j \<in> set (live_asteroids s)"
  shows "add_asteroid_in_rows MAX_ASTEROIDS b s
    = s\<lparr>rand_pos := rand_pos s + 2 * Suc k,
         asteroids := (asteroids s)[unat (numAsteroids s) := spawn_cell b s k],
         numAsteroids := numAsteroids s + 1\<rparr>"
  using add_asteroid_loop_finds [of s k 0 b "numAsteroids s"] assms
  by (simp add: add_asteroid_in_rows_def)

lemma add_asteroid_in_rows_cases:
  assumes "well_formed MAX_PROJECTILES MAX_ASTEROIDS s"
  obtains (same) "live_asteroids (add_asteroid_in_rows MAX_ASTEROIDS b s) = live_asteroids s"
      and "numAsteroids (add_asteroid_in_rows MAX_ASTEROIDS b s) = numAsteroids s"
    | (spawned) k where "k < 129" and "spawn_cell b s k \<notin> set (live_asteroids s)"
      and "live_asteroids (add_asteroid_in_rows MAX_ASTEROIDS b s)
            = live_asteroids s @ [spawn_cell b s k]"
      and "sint (numAsteroids (add_asteroid_in_rows MAX_ASTEROIDS b s)) = sint (numAsteroids s) + 1"
      and "sint (numAsteroids s) < uint MAX_ASTEROIDS"
proof -
  note wf = well_formedD [OF assms]
  let ?s = "add_asteroid_in_rows MAX_ASTEROIDS b s"
  consider (full) "sint (numAsteroids s) = uint MAX_ASTEROIDS"
    | (none) "sint (numAsteroids s) \<noteq> uint MAX_ASTEROIDS"
        "\<forall>k<129. spawn_cell b s k \<in> set (live_asteroids s)"
    | (some) "sint (numAsteroids s) \<noteq> uint MAX_ASTEROIDS"
        "\<exists>k<129. spawn_cell b s k \<notin> set (live_asteroids s)"
    by blast
  then show thesis
  proof cases
    case full
    then have "?s = s"
      by (rule add_asteroid_in_rows_full)
    then show thesis
      by (intro same) simp_all
  next
    case none
    from add_asteroid_in_rows_gives_up [OF wf(2) none] show thesis
      by (intro same) simp_all
  next
    case some
    let ?P = "\<lambda>k. k < 129 \<and> spawn_cell b s k \<notin> set (live_asteroids s)"
    from some(2) obtain k0 where k0: "?P k0"
      by blast
    define k where "k = (LEAST k. ?P k)"
    have k: "?P k"
      unfolding k_def using k0 by (rule LeastI)
    have least: "\<forall>j<k. spawn_cell b s j \<in> set (live_asteroids s)"
    proof (intro allI impI)
      fix j assume "j < k"
      then have "\<not> (j < 129 \<and> spawn_cell b s j \<notin> set (live_asteroids s))"
        unfolding k_def by (rule not_less_Least)
      then show "spawn_cell b s j \<in> set (live_asteroids s)"
        using \<open>j < k\<close> k by simp
    qed
    have eq: "?s = s\<lparr>rand_pos := rand_pos s + 2 * Suc k,
         asteroids := (asteroids s)[unat (numAsteroids s) := spawn_cell b s k],
         numAsteroids := numAsteroids s + 1\<rparr>"
      using k least by (intro add_asteroid_in_rows_spawns [OF wf(2) some(1)]) simp_all
    have lt: "sint (numAsteroids s) < uint MAX_ASTEROIDS"
      using wf(6) some(1) by linarith
    then have "sint (numAsteroids s) < 127"
      using wf(8) by linarith
    then have suc: "sint (numAsteroids s + 1) = sint (numAsteroids s) + 1"
      by (rule w8_sint_plus1)
    have n: "unat (numAsteroids s) = nat (sint (numAsteroids s))"
      by (rule w8_unat_nat_sint [OF wf(4)])
    have "int (length (asteroids s)) = uint MAX_ASTEROIDS"
      using wf(10) by simp
    then have inside: "nat (sint (numAsteroids s)) < length (asteroids s)"
      using lt wf(4) by linarith
    have "nat (sint (numAsteroids s) + 1) = Suc (nat (sint (numAsteroids s)))"
      using wf(4) by linarith
    then have "live_asteroids ?s = live_asteroids s @ [spawn_cell b s k]"
      using inside unfolding eq live_asteroids_def
      by (simp add: suc n take_Suc_conv_app_nth)
    moreover have "sint (numAsteroids ?s) = sint (numAsteroids s) + 1"
      unfolding eq by (simp add: suc)
    ultimately show thesis
      using k lt by (intro spawned [of k]) simp_all
  qed
qed

lemma spawn_cell_top_row:
  "spawn_cell 15 (scenario_top_row r) k \<in> set (live_asteroids (scenario_top_row r))"
proof -
  let ?v = "r (2 * k) mod 8"
  have "?v < 8"
    by simp
  then consider "?v = 0" | "?v = 1" | "?v = 2" | "?v = 3" | "?v = 4" | "?v = 5" | "?v = 6" | "?v = 7"
    by linarith
  then show ?thesis
    by cases (simp_all add: spawn_cell_def scenario_top_row_def live_asteroids_def
        FIELD_WIDTH_def FIELD_HEIGHT_def GAME_POSITION_def)
qed

lemma distinct_remove_filter:
  assumes "distinct xs" and "k < length xs"
  shows "take k xs @ drop (Suc k) xs = filter (\<lambda>p. p \<noteq> xs ! k) xs"
proof -
  have xs: "xs = take k xs @ xs ! k # drop (Suc k) xs"
    using assms(2) by (rule id_take_nth_drop)
  then have d: "distinct (take k xs @ xs ! k # drop (Suc k) xs)"
    using assms(1) by simp
  have "filter (\<lambda>p. p \<noteq> xs ! k) (take k xs) = take k xs"
    using d by (intro filter_True) auto
  moreover have "filter (\<lambda>p. p \<noteq> xs ! k) (drop (Suc k) xs) = drop (Suc k) xs"
    using d by (intro filter_True) auto
  ultimately have "filter (\<lambda>p. p \<noteq> xs ! k) (take k xs @ xs ! k # drop (Suc k) xs)
      = take k xs @ drop (Suc k) xs"
    by simp
  then show ?thesis
    using xs by simp
qed

lemma w8_and_15_plus:
  fixes b :: "8 word"
  shows "(b + 1) AND 15 \<noteq> b AND 15" and "(b + 2) AND 15 \<noteq> b AND 15"
proof -
  have m: "\<And>n :: nat. n mod 256 mod 16 = n mod 16"
    by (simp add: mod_mod_cancel)
  have "unat ((b + 1) AND 15) = (unat b + 1) mod 16"
    by (simp add: unat_and_15 unat_word_ariths m)
  moreover have "(unat b + 1) mod 16 \<noteq> unat b mod 16"
    using mod_Suc [of "unat b" 16] by (simp split: if_splits)
  ultimately show "(b + 1) AND 15 \<noteq> b AND 15"
    by (metis unat_and_15)
  have "unat ((b + 2) AND 15) = (unat b + 2) mod 16"
    by (simp add: unat_and_15 unat_word_ariths m)
  moreover have "(unat b + 2) mod 16 \<noteq> unat b mod 16"
    using mod_Suc [of "unat b" 16] mod_Suc [of "Suc (unat b)" 16] by (simp split: if_splits)
  ultimately show "(b + 2) AND 15 \<noteq> b AND 15"
    by (metis unat_and_15)
qed

lemma distinct_base_cells: "distinct (base_cells s)"
proof -
  let ?b = "basePosition s"
  have "GET_Y_POSITION (GAME_POSITION x 1) \<noteq> GET_Y_POSITION (GAME_POSITION x' 0)" for x x'
    by (simp add: GET_Y_GAME_POSITION)
  then have y: "GAME_POSITION x 1 \<noteq> GAME_POSITION x' 0" for x x'
    by metis
  have "GET_X_POSITION (GAME_POSITION (?b - 1) 0) \<noteq> GET_X_POSITION (GAME_POSITION ?b 0)"
    using w8_and_15_plus(1) [of "?b - 1"] by (simp add: GET_X_GAME_POSITION)
  then have x1: "GAME_POSITION (?b - 1) 0 \<noteq> GAME_POSITION ?b 0"
    by metis
  have "GET_X_POSITION (GAME_POSITION ?b 0) \<noteq> GET_X_POSITION (GAME_POSITION (?b + 1) 0)"
    using w8_and_15_plus(1) [of ?b] by (simp add: GET_X_GAME_POSITION)
  then have x2: "GAME_POSITION ?b 0 \<noteq> GAME_POSITION (?b + 1) 0"
    by metis
  have e: "?b - 1 + 2 = ?b + 1"
    by simp
  have "GET_X_POSITION (GAME_POSITION (?b - 1) 0) \<noteq> GET_X_POSITION (GAME_POSITION (?b + 1) 0)"
    using w8_and_15_plus(2) [of "?b - 1"] unfolding e GET_X_GAME_POSITION by (rule not_sym)
  then have x3: "GAME_POSITION (?b - 1) 0 \<noteq> GAME_POSITION (?b + 1) 0"
    by metis
  show ?thesis
    unfolding base_cells_def using y x1 x2 x3 by simp
qed

lemma well_formed_remove_asteroid:
  assumes "well_formed MAX_PROJECTILES MAX_ASTEROIDS s"
  shows "well_formed MAX_PROJECTILES MAX_ASTEROIDS (remove_asteroid i s)"
proof (cases "sint i < 0 \<or> sint (numAsteroids s) \<le> sint i")
  case True
  then show ?thesis
    using assms by (simp add: remove_asteroid_def)
next
  case False
  note wf = well_formedD [OF assms]
  from False live_asteroids_remove(2,3) [of i s] wf(2)
  have "sint (numAsteroids (remove_asteroid i s)) = sint (numAsteroids s) - 1"
    and "length (asteroids (remove_asteroid i s)) = length (asteroids s)"
    by simp_all
  then show ?thesis
    using assms False unfolding well_formed_def by simp
qed

lemma well_formed_remove_projectile:
  assumes "well_formed MAX_PROJECTILES MAX_ASTEROIDS s"
  shows "well_formed MAX_PROJECTILES MAX_ASTEROIDS (remove_projectile i s)"
proof (cases "sint i < 0 \<or> sint (numProjectiles s) \<le> sint i")
  case True
  then show ?thesis
    using assms by (simp add: remove_projectile_def)
next
  case False
  note wf = well_formedD [OF assms]
  from False live_projectiles_remove(2,3) [of i s] wf(1)
  have "sint (numProjectiles (remove_projectile i s)) = sint (numProjectiles s) - 1"
    and "length (projectiles (remove_projectile i s)) = length (projectiles s)"
    by simp_all
  then show ?thesis
    using assms False unfolding well_formed_def by simp
qed

lemma well_formed_change_lives [simp]:
  "well_formed mp ma (change_lives d s) = well_formed mp ma s"
  by (simp add: well_formed_def change_lives_def)

lemma well_formed_add_to_score [simp]:
  "well_formed mp ma (add_to_score d s) = well_formed mp ma s"
  by (simp add: well_formed_def add_to_score_def)

lemma live_asteroids_change_lives [simp]:
  "live_asteroids (change_lives d s) = live_asteroids s"
  by (simp add: live_asteroids_def change_lives_def)

lemma check_base_hit_effect:
  assumes "well_formed MAX_PROJECTILES MAX_ASTEROIDS s" and "distinct (live_asteroids s)"
  shows "live_asteroids (snd (check_base_hit x y s))
      = filter (\<lambda>p. p \<noteq> GAME_POSITION x y) (live_asteroids s)"
    and "lives (snd (check_base_hit x y s))
      = lives s - (if GAME_POSITION x y \<in> set (live_asteroids s) then 1 else 0)"
    and "sint (numAsteroids (snd (check_base_hit x y s)))
      = sint (numAsteroids s) - (if GAME_POSITION x y \<in> set (live_asteroids s) then 1 else 0)"
    and "well_formed MAX_PROJECTILES MAX_ASTEROIDS (snd (check_base_hit x y s))"
proof -
  note wf = well_formedD [OF assms(1)]
  let ?c = "GAME_POSITION x y" and ?r = "asteroid_at x y s"
  have all: "live_asteroids (snd (check_base_hit x y s))
      = filter (\<lambda>p. p \<noteq> ?c) (live_asteroids s)
    \<and> lives (snd (check_base_hit x y s))
      = lives s - (if ?c \<in> set (live_asteroids s) then 1 else 0)
    \<and> sint (numAsteroids (snd (check_base_hit x y s)))
      = sint (numAsteroids s) - (if ?c \<in> set (live_asteroids s) then 1 else 0)"
  proof (cases "?r = - 1")
    case True
    then have "?c \<notin> set (live_asteroids s)"
      using asteroid_at_absent [OF wf(2)] by simp
    moreover from this have "filter (\<lambda>p. p \<noteq> ?c) (live_asteroids s) = live_asteroids s"
      by (intro filter_True) auto
    ultimately show ?thesis
      using True by (simp add: check_base_hit_def)
  next
    case False
    then have in_live: "?c \<in> set (live_asteroids s)"
      using asteroid_at_absent [OF wf(2)] by simp
    have r: "position_at_loop 0 (numAsteroids s) (asteroids s) ?c = ?r"
      by (simp add: asteroid_at_def)
    note found = position_at_found [OF wf(2) r False]
    have k: "nat (sint ?r) = unat ?r"
      using found(3) by simp
    have valid: "0 \<le> sint ?r" "sint ?r < sint (numAsteroids s)"
      using found(1,3) by linarith+
    have at: "live_asteroids s ! unat ?r = ?c"
      using found(1,2) by (simp add: live_asteroids_def)
    have len: "unat ?r < length (live_asteroids s)"
      using found(1) wf(2) by (simp add: live_asteroids_def)
    have "live_asteroids (remove_asteroid ?r s)
        = take (unat ?r) (live_asteroids s) @ drop (Suc (unat ?r)) (live_asteroids s)"
      using live_asteroids_remove(1) [OF valid wf(2)] k by simp
    also have "\<dots> = filter (\<lambda>p. p \<noteq> ?c) (live_asteroids s)"
      using distinct_remove_filter [OF assms(2) len] at by simp
    finally have "live_asteroids (remove_asteroid ?r s)
        = filter (\<lambda>p. p \<noteq> ?c) (live_asteroids s)" .
    moreover have "sint (numAsteroids (remove_asteroid ?r s)) = sint (numAsteroids s) - 1"
      by (rule live_asteroids_remove(2) [OF valid wf(2)])
    ultimately show ?thesis
      using False in_live by (simp add: check_base_hit_def Let_def change_lives_def live_asteroids_def)
  qed
  then show "live_asteroids (snd (check_base_hit x y s))
      = filter (\<lambda>p. p \<noteq> ?c) (live_asteroids s)"
    and "lives (snd (check_base_hit x y s))
      = lives s - (if ?c \<in> set (live_asteroids s) then 1 else 0)"
    and "sint (numAsteroids (snd (check_base_hit x y s)))
      = sint (numAsteroids s) - (if ?c \<in> set (live_asteroids s) then 1 else 0)"
    by simp_all
  show "well_formed MAX_PROJECTILES MAX_ASTEROIDS (snd (check_base_hit x y s))"
    using well_formed_remove_asteroid [OF assms(1)] assms(1)
    by (simp add: check_base_hit_def Let_def)
qed

lemma add_asteroid_in_rows_well_formed:
  assumes "well_formed MAX_PROJECTILES MAX_ASTEROIDS s"
  shows "well_formed MAX_PROJECTILES MAX_ASTEROIDS (add_asteroid_in_rows MAX_ASTEROIDS b s)"
proof (rule add_asteroid_in_rows_cases [OF assms, of b])
  assume "numAsteroids (add_asteroid_in_rows MAX_ASTEROIDS b s) = numAsteroids s"
  then show ?thesis
    using assms unfolding well_formed_def by simp
next
  assume "sint (numAsteroids (add_asteroid_in_rows MAX_ASTEROIDS b s)) = sint (numAsteroids s) + 1"
    and "sint (numAsteroids s) < uint MAX_ASTEROIDS"
  then show ?thesis
    using assms unfolding well_formed_def by simp
qed

lemma add_asteroid_in_rows_found:
  assumes "well_formed MAX_PROJECTILES MAX_ASTEROIDS s"
    and "sint (numAsteroids s) < uint MAX_ASTEROIDS" and "spawn_finds b s"
  shows "sint (numAsteroids (add_asteroid_in_rows MAX_ASTEROIDS b s)) = sint (numAsteroids s) + 1"
proof -
  note wf = well_formedD [OF assms(1)]
  let ?P = "\<lambda>k. k < 129 \<and> spawn_cell b s k \<notin> set (live_asteroids s)"
  from assms(3) obtain k0 where "k0 < 8 * FIELD_HEIGHT"
      and "spawn_cell b s k0 \<notin> set (live_asteroids s)"
    unfolding spawn_finds_def by blast
  then have k0: "?P k0"
    by (simp add: FIELD_HEIGHT_def)
  define k where "k = (LEAST k. ?P k)"
  have k: "?P k"
    unfolding k_def using k0 by (rule LeastI)
  have least: "\<forall>j<k. spawn_cell b s j \<in> set (live_asteroids s)"
  proof (intro allI impI)
    fix j assume "j < k"
    then have "\<not> ?P j"
      unfolding k_def by (rule not_less_Least)
    then show "spawn_cell b s j \<in> set (live_asteroids s)"
      using \<open>j < k\<close> k by simp
  qed
  have ne: "sint (numAsteroids s) \<noteq> uint MAX_ASTEROIDS"
    using assms(2) by simp
  have "sint (numAsteroids s) < 127"
    using assms(2) wf(8) by linarith
  then have "sint (numAsteroids s + 1) = sint (numAsteroids s) + 1"
    by (rule w8_sint_plus1)
  then show ?thesis
    using k least by (subst add_asteroid_in_rows_spawns [OF wf(2) ne, of k]) simp_all
qed

lemma add_missing_asteroids_loop_fills:
  assumes "well_formed MAX_PROJECTILES MAX_ASTEROIDS s"
    and "sint (numAsteroids s) = uint i" and "i \<le> MAX_ASTEROIDS"
    and "replenish_finds MAX_ASTEROIDS (unat MAX_ASTEROIDS - unat i) s"
  shows "sint (numAsteroids (add_missing_asteroids_loop MAX_ASTEROIDS i s)) = uint MAX_ASTEROIDS"
  using assms
proof (induction MAX_ASTEROIDS i s rule: add_missing_asteroids_loop.induct)
  case (1 MAX_ASTEROIDS i s)
  show ?case
  proof (cases "i < MAX_ASTEROIDS")
    case False
    then have "i = MAX_ASTEROIDS"
      using "1.prems"(3) by simp
    then show ?thesis
      using "1.prems"(2) by (subst add_missing_asteroids_loop.simps) simp
  next
    case True
    let ?s = "add_asteroid_in_rows MAX_ASTEROIDS (of_nat (FIELD_HEIGHT - 1)) s"
    have lt: "unat i < unat MAX_ASTEROIDS"
      using True by (simp add: word_less_nat_alt)
    have "unat MAX_ASTEROIDS < 256"
      using unsigned_less [of MAX_ASTEROIDS, where ?'a = nat] by simp
    then have i1: "unat (i + 1) = Suc (unat i)"
      using lt by (simp add: w8_unat_plus1)
    then have ui1: "uint (i + 1) = uint i + 1"
      by (metis of_nat_Suc of_nat_unat add.commute)
    have le: "i + 1 \<le> MAX_ASTEROIDS"
      using lt i1 by (simp add: word_le_nat_alt)
    have "unat MAX_ASTEROIDS - unat i = Suc (unat MAX_ASTEROIDS - unat (i + 1))"
      using lt i1 by linarith
    then have f: "spawn_finds (of_nat (FIELD_HEIGHT - 1)) s"
      and r: "replenish_finds MAX_ASTEROIDS (unat MAX_ASTEROIDS - unat (i + 1)) ?s"
      using "1.prems"(4) by simp_all
    have "sint (numAsteroids s) < uint MAX_ASTEROIDS"
      using "1.prems"(2) True by (simp add: word_less_def)
    from add_asteroid_in_rows_found [OF "1.prems"(1) this f]
    have n: "sint (numAsteroids ?s) = uint (i + 1)"
      using "1.prems"(2) ui1 by simp
    have "sint (numAsteroids (add_missing_asteroids_loop MAX_ASTEROIDS (i + 1) ?s))
        = uint MAX_ASTEROIDS"
      using "1.IH" [OF True add_asteroid_in_rows_well_formed [OF "1.prems"(1)] n le r] .
    then show ?thesis
      using True by (subst add_missing_asteroids_loop.simps) simp
  qed
qed

lemma add_missing_asteroids_fills:
  assumes "well_formed MAX_PROJECTILES MAX_ASTEROIDS s"
    and "replenish_finds MAX_ASTEROIDS (nat (uint MAX_ASTEROIDS - sint (numAsteroids s))) s"
  shows "sint (numAsteroids (add_missing_asteroids MAX_ASTEROIDS s)) = uint MAX_ASTEROIDS"
proof -
  note wf = well_formedD [OF assms(1)]
  have u: "sint (numAsteroids s) = uint (numAsteroids s)"
    using w8_sint_nonneg [OF wf(4)] by simp
  then have le: "numAsteroids s \<le> MAX_ASTEROIDS"
    using wf(6) by (simp add: word_le_def)
  have "unat (numAsteroids s) \<le> unat MAX_ASTEROIDS"
    using le by (simp add: word_le_nat_alt)
  then have "int (unat MAX_ASTEROIDS - unat (numAsteroids s))
      = uint MAX_ASTEROIDS - uint (numAsteroids s)"
    by (simp add: of_nat_diff)
  then have "nat (uint MAX_ASTEROIDS - sint (numAsteroids s))
      = unat MAX_ASTEROIDS - unat (numAsteroids s)"
    unfolding u by (metis nat_int)
  then show ?thesis
    using assms add_missing_asteroids_loop_fills [OF assms(1) u le]
    by (simp add: add_missing_asteroids_def)
qed

lemma well_formed_asteroids_update:
  "well_formed mp ma s \<Longrightarrow> well_formed mp ma (s\<lparr>asteroids := (asteroids s)[k := v]\<rparr>)"
  by (simp add: well_formed_def)

lemma well_formed_projectiles_update:
  "well_formed mp ma s \<Longrightarrow> well_formed mp ma (s\<lparr>projectiles := (projectiles s)[k := v]\<rparr>)"
  by (simp add: well_formed_def)

lemma advance_projectiles_loop_well_formed:
  assumes "well_formed MAX_PROJECTILES MAX_ASTEROIDS s"
  shows "\<exists>t. advance_projectiles_loop 0 s = Some t \<and> well_formed MAX_PROJECTILES MAX_ASTEROIDS t"
proof -
  let ?I = "\<lambda>(pn :: int8_t) s. 0 \<le> sint pn \<and> well_formed MAX_PROJECTILES MAX_ASTEROIDS s"
  have "\<exists>pn' s'. advance_projectiles_loop 0 s = Some s' \<and> ?I pn' s'
      \<and> \<not> sint pn' < sint (numProjectiles s')"
  proof (rule advance_projectiles_loop_rule [where I = ?I])
    show "?I 0 s"
      using assms by simp
  next
    fix pn :: int8_t and s :: game
    assume a: "?I pn s" and "sint pn < sint (numProjectiles s)"
    then have "sint pn < 127"
      using w8_sint_le [of "numProjectiles s"] by linarith
    then have "sint (pn + 1) = sint pn + 1"
      by (rule w8_sint_plus1)
    then show "?I (pn + 1) (s\<lparr>projectiles := (projectiles s)[nat (sint pn) :=
        GAME_POSITION (GET_X_POSITION (projectiles s ! nat (sint pn)))
          (GET_Y_POSITION (projectiles s ! nat (sint pn)) + 1)]\<rparr>)"
      using a by (simp add: well_formed_projectiles_update)
  qed (simp_all add: well_formed_remove_projectile well_formed_remove_asteroid)
  then show ?thesis
    by blast
qed

lemma advance_asteroids_loop_well_formed:
  assumes "well_formed MAX_PROJECTILES MAX_ASTEROIDS s"
  shows "\<exists>t. advance_asteroids_loop 0 s = Some t \<and> well_formed MAX_PROJECTILES MAX_ASTEROIDS t"
proof -
  let ?I = "\<lambda>(i :: uint8_t) s. well_formed MAX_PROJECTILES MAX_ASTEROIDS s"
  have "\<exists>i' s'. advance_asteroids_loop 0 s = Some s' \<and> ?I i' s'
      \<and> \<not> uint i' < sint (numAsteroids s')"
    by (rule advance_asteroids_loop_rule [where I = ?I])
      (simp_all add: assms well_formed_remove_projectile well_formed_remove_asteroid
        well_formed_asteroids_update)
  then show ?thesis
    by blast
qed

lemma check_all_base_hits_well_formed:
  assumes "well_formed MAX_PROJECTILES MAX_ASTEROIDS s"
  shows "well_formed MAX_PROJECTILES MAX_ASTEROIDS (check_all_base_hits s)"
proof -
  have "well_formed MAX_PROJECTILES MAX_ASTEROIDS (snd (check_base_hit x y t))"
    if "well_formed MAX_PROJECTILES MAX_ASTEROIDS t" for x y t
    using that well_formed_remove_asteroid [OF that]
    by (simp add: check_base_hit_def Let_def)
  then show ?thesis
    using assms by (simp add: check_all_base_hits_def Let_def)
qed

lemma spawn_finds_first:
  "spawn_cell b s 0 \<notin> set (live_asteroids s) \<Longrightarrow> spawn_finds b s"
  unfolding spawn_finds_def by (rule bexI [of _ 0]) (simp_all add: FIELD_HEIGHT_def)

text \<open>
  C3. With the top row full and room for more asteroids, \<open>add_asteroid_in_rows\<close> for
  the top row gives up and leaves the engine state as it was, whatever \<open>random()\<close>
  returns; it has then taken \<open>2 * 129\<close> values of \<open>random()\<close>, two per sample, so
  it has sampled \<open>8 * FIELD_HEIGHT + 1\<close> cells. The lemmas
  \<open>add_asteroid_in_rows_gives_up\<close> and \<open>add_asteroid_in_rows_spawns\<close> above give the
  call in general.
\<close>

theorem add_asteroid_in_rows_attempts:
  "add_asteroid_in_rows 20 15 (scenario_top_row r) = (scenario_top_row r)\<lparr>rand_pos := 2 * 129\<rparr>
   \<and> rand_pos (add_asteroid_in_rows 20 15 (scenario_top_row r)) = 2 * (8 * FIELD_HEIGHT + 1)"
proof -
  have "add_asteroid_in_rows 20 15 (scenario_top_row r)
      = (scenario_top_row r)\<lparr>rand_pos := rand_pos (scenario_top_row r) + 258\<rparr>"
  proof (rule add_asteroid_in_rows_gives_up)
    show "nat (sint (numAsteroids (scenario_top_row r))) \<le> length (asteroids (scenario_top_row r))"
      by (simp add: scenario_top_row_def)
    show "sint (numAsteroids (scenario_top_row r)) \<noteq> uint (20 :: uint8_t)"
      by (simp add: scenario_top_row_def)
    show "\<forall>k<129. spawn_cell 15 (scenario_top_row r) k \<in> set (live_asteroids (scenario_top_row r))"
      by (simp add: spawn_cell_top_row)
  qed
  then show ?thesis
    by (simp add: scenario_top_row_def FIELD_HEIGHT_def)
qed

text \<open>
  C6. In a well-formed state with no two live asteroids in one cell,
  \<open>check_all_base_hits\<close> removes exactly the asteroids in the four cells of the base,
  and the lives and the asteroid count both go down by the number of those cells that
  held an asteroid.
\<close>

theorem check_all_base_hits_counts:
  assumes "well_formed MAX_PROJECTILES MAX_ASTEROIDS s" and "distinct (live_asteroids s)"
  shows "live_asteroids (check_all_base_hits s)
      = filter (\<lambda>p. p \<notin> set (base_cells s)) (live_asteroids s)
    \<and> lives (check_all_base_hits s)
      = lives s - int (length (filter (\<lambda>c. c \<in> set (live_asteroids s)) (base_cells s)))
    \<and> sint (numAsteroids (check_all_base_hits s))
      = sint (numAsteroids s)
        - int (length (filter (\<lambda>c. c \<in> set (live_asteroids s)) (base_cells s)))"
proof -
  let ?b = "basePosition s"
  let ?c1 = "GAME_POSITION ?b 1" and ?c2 = "GAME_POSITION (?b - 1) 0"
    and ?c3 = "GAME_POSITION ?b 0" and ?c4 = "GAME_POSITION (?b + 1) 0"
  define s1 where "s1 = snd (check_base_hit ?b 1 s)"
  define s2 where "s2 = snd (check_base_hit (?b - 1) 0 s1)"
  define s3 where "s3 = snd (check_base_hit ?b 0 s2)"
  define s4 where "s4 = snd (check_base_hit (?b + 1) 0 s3)"
  have b: "basePosition s1 = ?b" "basePosition s2 = ?b" "basePosition s3 = ?b"
    by (simp_all add: s1_def s2_def s3_def)
  have s4: "check_all_base_hits s = s4"
    by (simp add: check_all_base_hits_def Let_def s1_def s2_def s3_def s4_def)
  note e1 = check_base_hit_effect [OF assms, of ?b 1, folded s1_def]
  have d1: "distinct (live_asteroids s1)"
    using assms(2) by (simp add: e1(1))
  note e2 = check_base_hit_effect [OF e1(4) d1, of "?b - 1" 0, folded s2_def]
  have d2: "distinct (live_asteroids s2)"
    using d1 by (simp add: e2(1))
  note e3 = check_base_hit_effect [OF e2(4) d2, of ?b 0, folded s3_def]
  have d3: "distinct (live_asteroids s3)"
    using d2 by (simp add: e3(1))
  note e4 = check_base_hit_effect [OF e3(4) d3, of "?b + 1" 0, folded s4_def]
  have ne: "?c1 \<noteq> ?c2" "?c1 \<noteq> ?c3" "?c1 \<noteq> ?c4" "?c2 \<noteq> ?c3" "?c2 \<noteq> ?c4" "?c3 \<noteq> ?c4"
    using distinct_base_cells [of s] by (simp_all add: base_cells_def)
  have live: "live_asteroids s4 = filter (\<lambda>p. p \<notin> set (base_cells s)) (live_asteroids s)"
    unfolding e4(1) e3(1) e2(1) e1(1) base_cells_def
    by (auto intro: filter_cong)
  have "lives s4 = lives s - int (length (filter (\<lambda>c. c \<in> set (live_asteroids s)) (base_cells s)))"
    unfolding e4(2) e3(2) e2(2) e1(2) e3(1) e2(1) e1(1) base_cells_def
    using ne by simp
  moreover have "sint (numAsteroids s4) = sint (numAsteroids s)
      - int (length (filter (\<lambda>c. c \<in> set (live_asteroids s)) (base_cells s)))"
    unfolding e4(3) e3(3) e2(3) e1(3) e3(1) e2(1) e1(1) base_cells_def
    using ne by simp
  ultimately show ?thesis
    using live s4 by simp
qed

theorem check_all_base_hits_counts_witness:
  "well_formed 4 4 scenario_base_hit \<and> distinct (live_asteroids scenario_base_hit)
   \<and> live_asteroids (check_all_base_hits scenario_base_hit) = [0x55]
   \<and> lives (check_all_base_hits scenario_base_hit) = 1
   \<and> sint (numAsteroids (check_all_base_hits scenario_base_hit)) = 1"
  using check_all_base_hits_counts [of 4 4 scenario_base_hit]
  by (simp add: well_formed_def scenario_base_hit_def eval_defs)

text \<open>
  The base stays where it is in everything but \<open>move_base\<close>, and \<open>move_base\<close>
  keeps it in the field.
\<close>

lemma add_missing_asteroids_loop_basePosition:
  "basePosition (add_missing_asteroids_loop m i s) = basePosition s"
proof (induction m i s rule: add_missing_asteroids_loop.induct)
  case (1 m i s)
  show ?case
    by (subst add_missing_asteroids_loop.simps) (use 1 in simp)
qed

lemma add_missing_asteroids_basePosition [simp]:
  "basePosition (add_missing_asteroids m s) = basePosition s"
  by (simp add: add_missing_asteroids_def add_missing_asteroids_loop_basePosition)

lemma advance_asteroids_loop_basePosition:
  assumes "advance_asteroids_loop 0 s = Some t"
  shows "basePosition t = basePosition s"
proof -
  let ?I = "\<lambda>(i :: uint8_t) t. basePosition t = basePosition s"
  have "\<exists>i' s'. advance_asteroids_loop 0 s = Some s' \<and> ?I i' s'
      \<and> \<not> uint i' < sint (numAsteroids s')"
    by (rule advance_asteroids_loop_rule [where I = ?I]) simp_all
  then show ?thesis
    using assms by auto
qed

lemma advance_projectiles_loop_basePosition:
  assumes "advance_projectiles_loop 0 s = Some t"
  shows "basePosition t = basePosition s"
proof -
  let ?I = "\<lambda>(pn :: int8_t) t. 0 \<le> sint pn \<and> basePosition t = basePosition s"
  have "\<exists>pn' s'. advance_projectiles_loop 0 s = Some s' \<and> ?I pn' s'
      \<and> \<not> sint pn' < sint (numProjectiles s')"
  proof (rule advance_projectiles_loop_rule [where I = ?I])
    fix pn :: int8_t and t :: game
    assume a: "?I pn t" and "sint pn < sint (numProjectiles t)"
    then have "sint pn < 127"
      using w8_sint_le [of "numProjectiles t"] by linarith
    then have "sint (pn + 1) = sint pn + 1"
      by (rule w8_sint_plus1)
    then show "?I (pn + 1) (t\<lparr>projectiles := (projectiles t)[nat (sint pn) :=
        GAME_POSITION (GET_X_POSITION (projectiles t ! nat (sint pn)))
          (GET_Y_POSITION (projectiles t ! nat (sint pn)) + 1)]\<rparr>)"
      using a by simp
  qed simp_all
  then show ?thesis
    using assms by auto
qed

lemma advance_projectiles_basePosition:
  "advance_projectiles m s = Some s' \<Longrightarrow> basePosition s' = basePosition s"
  using advance_projectiles_loop_basePosition [of s]
  by (auto simp: advance_projectiles_def split: option.splits)

lemma advance_asteroids_basePosition:
  assumes "advance_asteroids m s = Some s'"
  shows "basePosition s' = basePosition s"
proof -
  obtain t where t: "advance_asteroids_loop 0 s = Some t"
    and r: "redraw_base (add_missing_asteroids m (check_all_base_hits t)) = Some s'"
    using assms by (auto simp: advance_asteroids_def split: option.splits)
  from redraw_base_same [OF r] advance_asteroids_loop_basePosition [OF t]
  show ?thesis
    by simp
qed

lemma fire_projectile_basePosition [simp]:
  "basePosition (snd (fire_projectile m s)) = basePosition s"
proof -
  have "basePosition (snd (check_asteroid_hit p a t)) = basePosition t" for p a t
    by simp
  then show ?thesis
    by (simp add: fire_projectile_def Let_def split_beta)
qed

lemma w8_sint_in_field:
  "0 \<le> sint (b :: 8 word) \<and> sint b \<le> 7 \<longleftrightarrow> b \<in> {0, 1, 2, 3, 4, 5, 6, 7}"
proof
  assume a: "0 \<le> sint b \<and> sint b \<le> 7"
  have e: "\<And>k. sint b = k \<Longrightarrow> b = word_of_int k"
    by auto
  from a have "sint b = 0 \<or> sint b = 1 \<or> sint b = 2 \<or> sint b = 3 \<or> sint b = 4 \<or> sint b = 5
      \<or> sint b = 6 \<or> sint b = 7"
    by linarith
  then show "b \<in> {0, 1, 2, 3, 4, 5, 6, 7}"
    using e [of 0] e [of 1] e [of 2] e [of 3] e [of 4] e [of 5] e [of 6] e [of 7] by auto
next
  assume "b \<in> {0, 1, 2, 3, 4, 5, 6, 7}"
  then show "0 \<le> sint b \<and> sint b \<le> 7"
    by auto
qed

lemma move_base_in_field:
  assumes "0 \<le> sint (basePosition s)" and "sint (basePosition s) \<le> 7"
    and "direction = MOVE_LEFT \<or> direction = MOVE_RIGHT"
  shows "0 \<le> sint (basePosition (snd (move_base direction s)))
    \<and> sint (basePosition (snd (move_base direction s))) \<le> 7"
proof -
  have "basePosition s \<in> {0, 1, 2, 3, 4, 5, 6, 7}"
    using assms(1,2) by (simp only: w8_sint_in_field [symmetric])
  then show ?thesis
    using assms(3) by (auto simp: move_base_def Let_def MOVE_LEFT_def MOVE_RIGHT_def)
qed

lemma redraw_base_in_field:
  "0 \<le> sint (basePosition s) \<Longrightarrow> sint (basePosition s) \<le> 7 \<Longrightarrow> redraw_base s = Some s"
  by (rule redraw_base_returns) simp_all

text \<open>
  C10. From a well-formed state with the base in the field \<open>advance_projectiles\<close> and
  \<open>advance_asteroids\<close> return: each pass of their \<open>while\<close> loops either raises
  the index or removes an entity and so lowers the count, and the count less the index
  goes down; the loop of \<open>redraw_base\<close>, at the end of \<open>advance_asteroids\<close>, makes
  three passes.
\<close>

theorem advance_loops_terminate:
  assumes "well_formed MAX_PROJECTILES MAX_ASTEROIDS s"
    and "0 \<le> sint (basePosition s)" and "sint (basePosition s) \<le> int FIELD_WIDTH - 1"
  shows "(\<exists>s'. advance_projectiles MAX_ASTEROIDS s = Some s')
    \<and> (\<exists>s'. advance_asteroids MAX_ASTEROIDS s = Some s')"
proof -
  have "\<exists>(pn' :: int8_t) s'. advance_projectiles_loop 0 s = Some s' \<and> 0 \<le> sint pn'
      \<and> \<not> sint pn' < sint (numProjectiles s')"
  proof (rule advance_projectiles_loop_rule [where I = "\<lambda>pn s. 0 \<le> sint pn"])
    fix pn :: int8_t and s :: game
    assume "0 \<le> sint pn" and "sint pn < sint (numProjectiles s)"
    then have "sint pn < 127"
      using w8_sint_le [of "numProjectiles s"] by linarith
    then have "sint (pn + 1) = sint pn + 1"
      by (rule w8_sint_plus1)
    then show "0 \<le> sint (pn + 1)"
      using \<open>0 \<le> sint pn\<close> by simp
  qed simp_all
  then obtain s1 where "advance_projectiles_loop 0 s = Some s1"
    by blast
  then have p: "\<exists>s'. advance_projectiles MAX_ASTEROIDS s = Some s'"
    by (simp add: advance_projectiles_def)
  have "\<exists>(i' :: uint8_t) s'. advance_asteroids_loop 0 s = Some s' \<and> True
      \<and> \<not> uint i' < sint (numAsteroids s')"
    by (rule advance_asteroids_loop_rule [where I = "\<lambda>i s. True"]) simp_all
  then obtain s2 where s2: "advance_asteroids_loop 0 s = Some s2"
    by blast
  let ?u = "add_missing_asteroids MAX_ASTEROIDS (check_all_base_hits s2)"
  have "basePosition ?u = basePosition s"
    using advance_asteroids_loop_basePosition [OF s2] by simp
  then have "redraw_base ?u = Some ?u"
    using assms(2,3) by (intro redraw_base_in_field) (simp_all add: FIELD_WIDTH_def)
  then have "\<exists>s'. advance_asteroids MAX_ASTEROIDS s = Some s'"
    using s2 by (simp add: advance_asteroids_def)
  with p show ?thesis
    by simp
qed

theorem advance_loops_terminate_witness:
  "well_formed 4 4 scenario_three
   \<and> 0 \<le> sint (basePosition scenario_three)
   \<and> sint (basePosition scenario_three) \<le> int FIELD_WIDTH - 1
   \<and> advance_projectiles 4 scenario_three \<noteq> None
   \<and> advance_asteroids 4 scenario_three \<noteq> None
   \<and> live_projectiles (the (advance_projectiles 4 scenario_three)) = [0x33, 0x56]
   \<and> live_asteroids (the (advance_asteroids 4 scenario_three)) = [0x22, 0x33, 0x44, 0x0F]"
  using advance_loops_terminate [of 4 4 scenario_three]
  by (simp add: well_formed_def scenario_three_def eval_defs FIELD_WIDTH_def)

text \<open>
  What \<open>move_base\<close> and \<open>fire_projectile\<close> do to the live asteroids.
\<close>

lemma remove_asteroid_at_live:
  assumes "nat (sint (numAsteroids s)) \<le> length (asteroids s)"
    and "distinct (live_asteroids s)" and "asteroid_at x y s \<noteq> - 1"
  shows "live_asteroids (remove_asteroid (asteroid_at x y s) s)
      = filter (\<lambda>p. p \<noteq> GAME_POSITION x y) (live_asteroids s)"
proof -
  let ?c = "GAME_POSITION x y" and ?r = "asteroid_at x y s"
  have r: "position_at_loop 0 (numAsteroids s) (asteroids s) ?c = ?r"
    by (simp add: asteroid_at_def)
  note found = position_at_found [OF assms(1) r assms(3)]
  have k: "nat (sint ?r) = unat ?r"
    using found(3) by simp
  have valid: "0 \<le> sint ?r" "sint ?r < sint (numAsteroids s)"
    using found(1,3) by linarith+
  have at: "live_asteroids s ! unat ?r = ?c"
    using found(1,2) by (simp add: live_asteroids_def)
  have len: "unat ?r < length (live_asteroids s)"
    using found(1) assms(1) by (simp add: live_asteroids_def)
  have "live_asteroids (remove_asteroid ?r s)
      = take (unat ?r) (live_asteroids s) @ drop (Suc (unat ?r)) (live_asteroids s)"
    using live_asteroids_remove(1) [OF valid assms(1)] k by simp
  also have "\<dots> = filter (\<lambda>p. p \<noteq> ?c) (live_asteroids s)"
    using distinct_remove_filter [OF assms(2) len] at by simp
  finally show ?thesis .
qed

lemma check_all_base_hits_live:
  assumes "well_formed MAX_PROJECTILES MAX_ASTEROIDS s" and "distinct (live_asteroids s)"
  shows "live_asteroids (check_all_base_hits s)
      = filter (\<lambda>p. p \<notin> set (base_cells s)) (live_asteroids s)"
proof -
  let ?b = "basePosition s"
  define s1 where "s1 = snd (check_base_hit ?b 1 s)"
  define s2 where "s2 = snd (check_base_hit (?b - 1) 0 s1)"
  define s3 where "s3 = snd (check_base_hit ?b 0 s2)"
  define s4 where "s4 = snd (check_base_hit (?b + 1) 0 s3)"
  have s4: "check_all_base_hits s = s4"
    by (simp add: check_all_base_hits_def Let_def s1_def s2_def s3_def s4_def)
  note e1 = check_base_hit_effect(1,4) [OF assms, of ?b 1, folded s1_def]
  have d1: "distinct (live_asteroids s1)"
    using assms(2) by (simp add: e1(1))
  note e2 = check_base_hit_effect(1,4) [OF e1(2) d1, of "?b - 1" 0, folded s2_def]
  have d2: "distinct (live_asteroids s2)"
    using d1 by (simp add: e2(1))
  note e3 = check_base_hit_effect(1,4) [OF e2(2) d2, of ?b 0, folded s3_def]
  have d3: "distinct (live_asteroids s3)"
    using d2 by (simp add: e3(1))
  note e4 = check_base_hit_effect(1) [OF e3(2) d3, of "?b + 1" 0, folded s4_def]
  have "live_asteroids s4 = filter (\<lambda>p. p \<notin> set (base_cells s)) (live_asteroids s)"
    unfolding e4 e3(1) e2(1) e1(1) base_cells_def
    by (auto intro: filter_cong)
  then show ?thesis
    by (simp add: s4)
qed

lemma move_base_live:
  assumes "well_formed MAX_PROJECTILES MAX_ASTEROIDS s" and "distinct (live_asteroids s)"
  shows "live_asteroids (snd (move_base direction s))
      = (if fst (move_base direction s) = 0 then live_asteroids s
         else filter (\<lambda>p. p \<notin> set (base_cells (snd (move_base direction s)))) (live_asteroids s))"
    and "well_formed MAX_PROJECTILES MAX_ASTEROIDS (snd (move_base direction s))"
    and "rand_pos (snd (move_base direction s)) = rand_pos s"
proof -
  let ?s1 = "s\<lparr>basePosition := basePosition s + (2 * direction - 1)\<rparr>"
  have wf: "well_formed MAX_PROJECTILES MAX_ASTEROIDS ?s1"
    using assms(1) by (simp add: well_formed_def)
  have live: "live_asteroids ?s1 = live_asteroids s"
    by (simp add: live_asteroids_def)
  have cells: "base_cells (check_all_base_hits ?s1) = base_cells ?s1"
    by (simp add: base_cells_def)
  show "live_asteroids (snd (move_base direction s))
      = (if fst (move_base direction s) = 0 then live_asteroids s
         else filter (\<lambda>p. p \<notin> set (base_cells (snd (move_base direction s)))) (live_asteroids s))"
    using check_all_base_hits_live [OF wf] assms(2) live cells
    by (simp add: move_base_def Let_def)
  show "well_formed MAX_PROJECTILES MAX_ASTEROIDS (snd (move_base direction s))"
    using check_all_base_hits_well_formed [OF wf] assms(1)
    by (simp add: move_base_def Let_def)
  show "rand_pos (snd (move_base direction s)) = rand_pos s"
    by (simp add: move_base_def Let_def)
qed

lemma fire_projectile_live:
  assumes "well_formed MAX_PROJECTILES MAX_ASTEROIDS s" and "distinct (live_asteroids s)"
  shows "live_asteroids (snd (fire_projectile MAX_PROJECTILES s))
      = (if fst (fire_projectile MAX_PROJECTILES s) = 0 then live_asteroids s
         else filter (\<lambda>p. p \<noteq> GAME_POSITION (basePosition s) 2) (live_asteroids s))"
    and "well_formed MAX_PROJECTILES MAX_ASTEROIDS (snd (fire_projectile MAX_PROJECTILES s))"
    and "rand_pos (snd (fire_projectile MAX_PROJECTILES s)) = rand_pos s"
proof -
  note w = well_formedD [OF assms(1)]
  let ?c = "GAME_POSITION (basePosition s) 2"
  let ?s2 = "s\<lparr>numProjectiles := numProjectiles s + 1,
      projectiles := (projectiles s)[unat (numProjectiles s) := ?c]\<rparr>"
  let ?a = "asteroid_at (basePosition s) 2 ?s2"
  let ?t = "remove_projectile (numProjectiles s) ?s2"
  have a: "?a = asteroid_at (basePosition s) 2 s" "asteroid_at (basePosition s) 2 ?t = ?a"
    by (simp_all add: asteroid_at_def)
  have lt: "live_asteroids ?t = live_asteroids s"
    by (simp add: live_asteroids_def)
  have t: "nat (sint (numAsteroids ?t)) \<le> length (asteroids ?t)"
    using w(2) by simp
  have hit: "live_asteroids (snd (check_asteroid_hit (numProjectiles s) ?a ?s2))
      = filter (\<lambda>p. p \<noteq> ?c) (live_asteroids s)"
  proof (cases "numProjectiles s = - 1 \<or> ?a = - 1")
    case True
    have "sint (numProjectiles s) \<noteq> sint (- 1 :: 8 word)"
      using w(3) by simp
    then have "numProjectiles s \<noteq> - 1"
      by auto
    with True have "?a = - 1"
      by simp
    then have "?c \<notin> set (live_asteroids s)"
      using asteroid_at_absent [OF w(2), of "basePosition s" 2] a(1) by simp
    then have "filter (\<lambda>p. p \<noteq> ?c) (live_asteroids s) = live_asteroids s"
      by (intro filter_True) auto
    then show ?thesis
      using True by (simp add: check_asteroid_hit_def live_asteroids_def)
  next
    case False
    then have "asteroid_at (basePosition s) 2 ?t \<noteq> - 1"
      using a(2) by simp
    from remove_asteroid_at_live [OF t _ this] assms(2) lt a(2)
    have "live_asteroids (remove_asteroid ?a ?t) = filter (\<lambda>p. p \<noteq> ?c) (live_asteroids s)"
      by simp
    then show ?thesis
      using False by (simp add: check_asteroid_hit_def live_asteroids_def)
  qed
  show "live_asteroids (snd (fire_projectile MAX_PROJECTILES s))
      = (if fst (fire_projectile MAX_PROJECTILES s) = 0 then live_asteroids s
         else filter (\<lambda>p. p \<noteq> ?c) (live_asteroids s))"
    using hit by (simp add: fire_projectile_def Let_def split_beta)
  show "rand_pos (snd (fire_projectile MAX_PROJECTILES s)) = rand_pos s"
  proof -
    have "rand_pos (snd (check_asteroid_hit p b u)) = rand_pos u" for p b u
      by simp
    then show ?thesis
      by (simp add: fire_projectile_def Let_def split_beta)
  qed
  show "well_formed MAX_PROJECTILES MAX_ASTEROIDS (snd (fire_projectile MAX_PROJECTILES s))"
  proof (cases "sint (numProjectiles s) < uint MAX_PROJECTILES
      \<and> projectile_at (basePosition s) 2 s = - 1")
    case False
    then show ?thesis
      using assms(1) by (auto simp: fire_projectile_def)
  next
    case True
    have "sint (numProjectiles s) < 127"
      using True w(7) by linarith
    then have "sint (numProjectiles s + 1) = sint (numProjectiles s) + 1"
      by (rule w8_sint_plus1)
    then have "well_formed MAX_PROJECTILES MAX_ASTEROIDS ?s2"
      using assms(1) True unfolding well_formed_def by simp
    then have "well_formed MAX_PROJECTILES MAX_ASTEROIDS
        (snd (check_asteroid_hit (numProjectiles s) ?a ?s2))"
      by (simp add: check_asteroid_hit_def well_formed_remove_asteroid
          well_formed_remove_projectile)
    then show ?thesis
      using True by (simp add: fire_projectile_def Let_def split_beta)
  qed
qed

lemma well_formed_count:
  "well_formed MAX_PROJECTILES MAX_ASTEROIDS s
     \<Longrightarrow> sint (numAsteroids s) = int (length (live_asteroids s))"
  using well_formedD(2,4) [of MAX_PROJECTILES MAX_ASTEROIDS s]
  by (simp add: live_asteroids_def)

text \<open>
  C1, as the code has it, from a well-formed state with no two live asteroids in one
  cell and the base in the field. \<open>advance_projectiles\<close> and \<open>advance_asteroids\<close>
  return, and end with \<open>add_missing_asteroids\<close>; when each spawn of that
  replenishment finds a free cell of the top row among its first \<open>8 * FIELD_HEIGHT\<close>
  samples, the asteroid count is \<open>MAX_ASTEROIDS\<close> on return. \<open>move_base\<close> and
  \<open>fire_projectile\<close> do not replenish: the live asteroids after \<open>move_base\<close> are
  those before it that are in no cell of the moved base, the live asteroids after
  \<open>fire_projectile\<close> are those before it but the one in the cell the projectile is
  fired into, both in the order they had; the count is the length of that list and no
  value of \<open>random()\<close> is drawn. The two calls of \<open>redraw_base\<close> in \<open>move_base\<close>
  return.
\<close>

theorem replenishment_when_spawns_find:
  assumes "well_formed MAX_PROJECTILES MAX_ASTEROIDS s" and "distinct (live_asteroids s)"
    and "0 \<le> sint (basePosition s)" and "sint (basePosition s) \<le> int FIELD_WIDTH - 1"
    and "direction = MOVE_LEFT \<or> direction = MOVE_RIGHT"
  shows "(\<exists>t. advance_projectiles_loop 0 s = Some t
          \<and> advance_projectiles MAX_ASTEROIDS s = Some (add_missing_asteroids MAX_ASTEROIDS t)
          \<and> (replenish_finds MAX_ASTEROIDS (nat (uint MAX_ASTEROIDS - sint (numAsteroids t))) t
               \<longrightarrow> sint (numAsteroids (add_missing_asteroids MAX_ASTEROIDS t)) = uint MAX_ASTEROIDS))
    \<and> (\<exists>t. advance_asteroids_loop 0 s = Some t
          \<and> advance_asteroids MAX_ASTEROIDS s
              = Some (add_missing_asteroids MAX_ASTEROIDS (check_all_base_hits t))
          \<and> (replenish_finds MAX_ASTEROIDS
                (nat (uint MAX_ASTEROIDS - sint (numAsteroids (check_all_base_hits t))))
                (check_all_base_hits t)
               \<longrightarrow> sint (numAsteroids (add_missing_asteroids MAX_ASTEROIDS (check_all_base_hits t)))
                   = uint MAX_ASTEROIDS))
    \<and> redraw_base s = Some s
    \<and> redraw_base (snd (move_base direction s)) = Some (snd (move_base direction s))
    \<and> live_asteroids (snd (move_base direction s))
        = (if fst (move_base direction s) = 0 then live_asteroids s
           else filter (\<lambda>p. p \<notin> set (base_cells (snd (move_base direction s))))
                  (live_asteroids s))
    \<and> sint (numAsteroids (snd (move_base direction s)))
        = int (length (live_asteroids (snd (move_base direction s))))
    \<and> rand_pos (snd (move_base direction s)) = rand_pos s
    \<and> live_asteroids (snd (fire_projectile MAX_PROJECTILES s))
        = (if fst (fire_projectile MAX_PROJECTILES s) = 0 then live_asteroids s
           else filter (\<lambda>p. p \<noteq> GAME_POSITION (basePosition s) 2) (live_asteroids s))
    \<and> sint (numAsteroids (snd (fire_projectile MAX_PROJECTILES s)))
        = int (length (live_asteroids (snd (fire_projectile MAX_PROJECTILES s))))
    \<and> rand_pos (snd (fire_projectile MAX_PROJECTILES s)) = rand_pos s"
proof -
  have base: "0 \<le> sint (basePosition s)" "sint (basePosition s) \<le> 7"
    using assms(3,4) by (simp_all add: FIELD_WIDTH_def)
  from advance_projectiles_loop_well_formed [OF assms(1)] obtain t
    where t: "advance_projectiles_loop 0 s = Some t" "well_formed MAX_PROJECTILES MAX_ASTEROIDS t"
    by blast
  from advance_asteroids_loop_well_formed [OF assms(1)] obtain u
    where u: "advance_asteroids_loop 0 s = Some u" "well_formed MAX_PROJECTILES MAX_ASTEROIDS u"
    by blast
  let ?v = "add_missing_asteroids MAX_ASTEROIDS (check_all_base_hits u)"
  have wu: "well_formed MAX_PROJECTILES MAX_ASTEROIDS (check_all_base_hits u)"
    by (rule check_all_base_hits_well_formed [OF u(2)])
  have "basePosition ?v = basePosition s"
    using advance_asteroids_loop_basePosition [OF u(1)] by simp
  then have "redraw_base ?v = Some ?v"
    using base by (intro redraw_base_in_field) simp_all
  then have adv: "advance_asteroids MAX_ASTEROIDS s = Some ?v"
    using u(1) by (simp add: advance_asteroids_def)
  have p1: "\<exists>t. advance_projectiles_loop 0 s = Some t
      \<and> advance_projectiles MAX_ASTEROIDS s = Some (add_missing_asteroids MAX_ASTEROIDS t)
      \<and> (replenish_finds MAX_ASTEROIDS (nat (uint MAX_ASTEROIDS - sint (numAsteroids t))) t
           \<longrightarrow> sint (numAsteroids (add_missing_asteroids MAX_ASTEROIDS t)) = uint MAX_ASTEROIDS)"
    using t add_missing_asteroids_fills [OF t(2)] by (simp add: advance_projectiles_def)
  have p2: "\<exists>t. advance_asteroids_loop 0 s = Some t
      \<and> advance_asteroids MAX_ASTEROIDS s
          = Some (add_missing_asteroids MAX_ASTEROIDS (check_all_base_hits t))
      \<and> (replenish_finds MAX_ASTEROIDS
            (nat (uint MAX_ASTEROIDS - sint (numAsteroids (check_all_base_hits t))))
            (check_all_base_hits t)
           \<longrightarrow> sint (numAsteroids (add_missing_asteroids MAX_ASTEROIDS (check_all_base_hits t)))
               = uint MAX_ASTEROIDS)"
    using u(1) adv add_missing_asteroids_fills [OF wu] by simp
  have p3: "redraw_base s = Some s"
    using base by (rule redraw_base_in_field)
  have p4: "redraw_base (snd (move_base direction s)) = Some (snd (move_base direction s))"
    using move_base_in_field [OF base assms(5)] by (intro redraw_base_in_field) simp_all
  note m = move_base_live [OF assms(1,2), of direction]
  note f = fire_projectile_live [OF assms(1,2)]
  show ?thesis
    using p1 p2 p3 p4 m(1,3) f(1,3) well_formed_count [OF m(2)] well_formed_count [OF f(2)]
    by blast
qed

theorem replenishment_when_spawns_find_witness:
  "well_formed 4 4 scenario_three \<and> distinct (live_asteroids scenario_three)
   \<and> replenish_finds 4 1 (the (advance_projectiles_loop 0 scenario_three))
   \<and> sint (numAsteroids (the (advance_projectiles 4 scenario_three))) = 4
   \<and> replenish_finds 4 1 (check_all_base_hits (the (advance_asteroids_loop 0 scenario_three)))
   \<and> sint (numAsteroids (the (advance_asteroids 4 scenario_three))) = 4
   \<and> live_asteroids scenario_full = [0x41, 0x55, 0x66, 0x77]
   \<and> live_asteroids (snd (move_base MOVE_RIGHT scenario_full)) = [0x55, 0x66, 0x77]
   \<and> live_asteroids scenario_hit = [0x32]
   \<and> live_asteroids (snd (fire_projectile 4 scenario_hit)) = []"
proof -
  let ?t = "the (advance_projectiles_loop 0 scenario_three)"
  let ?u = "check_all_base_hits (the (advance_asteroids_loop 0 scenario_three))"
  have wf: "well_formed 4 4 scenario_three" "distinct (live_asteroids scenario_three)"
    "0 \<le> sint (basePosition scenario_three)"
    "sint (basePosition scenario_three) \<le> int FIELD_WIDTH - 1"
    by (simp_all add: well_formed_def scenario_three_def live_asteroids_def FIELD_WIDTH_def)
  have wf_full: "well_formed 4 4 scenario_full" "distinct (live_asteroids scenario_full)"
    "0 \<le> sint (basePosition scenario_full)"
    "sint (basePosition scenario_full) \<le> int FIELD_WIDTH - 1"
    by (simp_all add: well_formed_def scenario_full_def live_asteroids_def FIELD_WIDTH_def)
  have wf_hit: "well_formed 4 4 scenario_hit" "distinct (live_asteroids scenario_hit)"
    "0 \<le> sint (basePosition scenario_hit)"
    "sint (basePosition scenario_hit) \<le> int FIELD_WIDTH - 1"
    by (simp_all add: well_formed_def scenario_hit_def live_asteroids_def FIELD_WIDTH_def)
  have n: "nat (uint (4 :: uint8_t) - sint (numAsteroids ?t)) = 1"
    "nat (uint (4 :: uint8_t) - sint (numAsteroids ?u)) = 1"
    by (simp_all add: scenario_three_def eval_defs)
  have r: "replenish_finds 4 1 ?t" "replenish_finds 4 1 ?u"
    by (simp_all add: scenario_three_def eval_defs spawn_finds_first spawn_cell_def)
  have full: "live_asteroids scenario_full = [0x41, 0x55, 0x66, 0x77]"
    "fst (move_base MOVE_RIGHT scenario_full) = 1"
    "base_cells (snd (move_base MOVE_RIGHT scenario_full)) = [0x41, 0x30, 0x40, 0x50]"
    by (simp_all add: scenario_full_def live_asteroids_def move_base_def MOVE_RIGHT_def
        base_cells_def GAME_POSITION_def)
  have hit: "live_asteroids scenario_hit = [0x32]"
    "fst (fire_projectile 4 scenario_hit) = 1"
    "GAME_POSITION (basePosition scenario_hit) 2 = 0x32"
    by (simp_all add: scenario_hit_def live_asteroids_def fire_projectile_def eval_defs
        GAME_POSITION_def split_beta)
  from replenishment_when_spawns_find [OF wf, of MOVE_RIGHT] n r
  have "sint (numAsteroids (the (advance_projectiles 4 scenario_three))) = uint (4 :: uint8_t)"
    and "sint (numAsteroids (the (advance_asteroids 4 scenario_three))) = uint (4 :: uint8_t)"
    by auto
  moreover from replenishment_when_spawns_find [OF wf_full, of MOVE_RIGHT] full
  have "live_asteroids (snd (move_base MOVE_RIGHT scenario_full)) = [0x55, 0x66, 0x77]"
    by simp
  moreover from replenishment_when_spawns_find [OF wf_hit, of MOVE_RIGHT] hit
  have "live_asteroids (snd (fire_projectile 4 scenario_hit)) = []"
    by simp
  ultimately show ?thesis
    using wf r full(1) hit(1) by simp
qed

text \<open>
  C1, as stated, fails: with lives left and all four asteroids live, a move of the base
  onto an asteroid returns with three.
\<close>

theorem move_base_does_not_replenish:
  "well_formed 4 4 scenario_full \<and> lives scenario_full = 3
   \<and> sint (numAsteroids scenario_full) = 4
   \<and> fst (move_base MOVE_RIGHT scenario_full) = 1
   \<and> lives (snd (move_base MOVE_RIGHT scenario_full)) = 2
   \<and> sint (numAsteroids (snd (move_base MOVE_RIGHT scenario_full))) = 3"
  by (simp add: well_formed_def scenario_full_def move_base_def MOVE_RIGHT_def eval_defs)

section \<open>The invariants of the reachable states\<close>

lemma sorted_remove_nth:
  fixes ys :: "nat list"
  shows "sorted ys \<Longrightarrow> sorted (take k ys @ drop (Suc k) ys)"
proof (induction ys arbitrary: k)
  case Nil
  then show ?case by simp
next
  case (Cons y ys)
  show ?case
  proof (cases k)
    case 0
    then show ?thesis using Cons.prems by simp
  next
    case (Suc k')
    then show ?thesis
      using Cons.prems Cons.IH [of k'] by (auto dest: in_set_takeD in_set_dropD)
  qed
qed

lemma live_projectiles_remove_asteroid [simp]:
  "live_projectiles (remove_asteroid i s) = live_projectiles s"
  by (simp add: live_projectiles_def)

lemma live_asteroids_remove_projectile [simp]:
  "live_asteroids (remove_projectile i s) = live_asteroids s"
  by (simp add: live_asteroids_def)

lemma live_add_to_score [simp]:
  "live_asteroids (add_to_score d s) = live_asteroids s"
  "live_projectiles (add_to_score d s) = live_projectiles s"
  by (simp_all add: live_asteroids_def live_projectiles_def)

lemma live_projectiles_change_lives [simp]:
  "live_projectiles (change_lives d s) = live_projectiles s"
  by (simp add: live_projectiles_def change_lives_def)

lemma engine_inv_remove_asteroid:
  assumes "engine_inv MAX_PROJECTILES MAX_ASTEROIDS s"
  shows "engine_inv MAX_PROJECTILES MAX_ASTEROIDS (remove_asteroid i s)"
proof (cases "sint i < 0 \<or> sint (numAsteroids s) \<le> sint i")
  case True
  then show ?thesis
    using assms by (simp add: remove_asteroid_def)
next
  case False
  have wf: "well_formed MAX_PROJECTILES MAX_ASTEROIDS s"
    using assms by (simp add: engine_inv_def)
  from False live_asteroids_remove(1) [of i s] well_formedD(2) [OF wf]
  have live: "live_asteroids (remove_asteroid i s)
      = take (nat (sint i)) (live_asteroids s) @ drop (Suc (nat (sint i))) (live_asteroids s)"
    by simp
  have "distinct (live_asteroids (remove_asteroid i s))"
    unfolding live using assms
    by (intro distinct_remove_nth) (simp add: engine_inv_def no_shared_cell_def)
  moreover have "asteroids_sorted (remove_asteroid i s)"
    using assms sorted_remove_nth
      [of "map (\<lambda>p. unat (GET_Y_POSITION p)) (live_asteroids s)" "nat (sint i)"]
    unfolding asteroids_sorted_def live engine_inv_def
    by (simp add: take_map drop_map)
  ultimately show ?thesis
    using assms well_formed_remove_asteroid [OF wf, of i]
    by (simp add: engine_inv_def no_shared_cell_def)
qed

lemma engine_inv_remove_projectile:
  assumes "engine_inv MAX_PROJECTILES MAX_ASTEROIDS s"
  shows "engine_inv MAX_PROJECTILES MAX_ASTEROIDS (remove_projectile i s)"
proof (cases "sint i < 0 \<or> sint (numProjectiles s) \<le> sint i")
  case True
  then show ?thesis
    using assms by (simp add: remove_projectile_def)
next
  case False
  have wf: "well_formed MAX_PROJECTILES MAX_ASTEROIDS s"
    using assms by (simp add: engine_inv_def)
  from False live_projectiles_remove(1) [of i s] well_formedD(1) [OF wf]
  have live: "live_projectiles (remove_projectile i s)
      = take (nat (sint i)) (live_projectiles s) @ drop (Suc (nat (sint i))) (live_projectiles s)"
    by simp
  have "distinct (live_projectiles (remove_projectile i s))"
    unfolding live using assms
    by (intro distinct_remove_nth) (simp add: engine_inv_def no_shared_cell_def)
  then show ?thesis
    using assms well_formed_remove_projectile [OF wf, of i]
    by (simp add: engine_inv_def no_shared_cell_def asteroids_sorted_def)
qed

lemma engine_inv_add_to_score [simp]:
  "engine_inv mp ma (add_to_score d s) = engine_inv mp ma s"
  by (simp add: engine_inv_def no_shared_cell_def asteroids_sorted_def)

lemma engine_inv_change_lives [simp]:
  "engine_inv mp ma (change_lives d s) = engine_inv mp ma s"
  by (simp add: engine_inv_def no_shared_cell_def asteroids_sorted_def)

lemma engine_inv_check_asteroid_hit:
  "engine_inv mp ma s \<Longrightarrow> engine_inv mp ma (snd (check_asteroid_hit p a s))"
  by (simp add: check_asteroid_hit_def engine_inv_remove_asteroid engine_inv_remove_projectile)

lemma engine_inv_check_base_hit:
  "engine_inv mp ma s \<Longrightarrow> engine_inv mp ma (snd (check_base_hit x y s))"
  by (simp add: check_base_hit_def Let_def engine_inv_remove_asteroid)

lemma engine_inv_check_all_base_hits:
  "engine_inv mp ma s \<Longrightarrow> engine_inv mp ma (check_all_base_hits s)"
  by (simp add: check_all_base_hits_def Let_def engine_inv_check_base_hit)

lemma engine_inv_basePosition [simp]:
  "engine_inv mp ma (s\<lparr>basePosition := b\<rparr>) = engine_inv mp ma s"
  by (simp add: engine_inv_def no_shared_cell_def asteroids_sorted_def well_formed_def
      live_asteroids_def live_projectiles_def)

lemma engine_inv_move_base:
  "engine_inv mp ma s \<Longrightarrow> engine_inv mp ma (snd (move_base direction s))"
  by (simp add: move_base_def Let_def engine_inv_check_all_base_hits)

lemma unat_GET_Y_le: "unat (GET_Y_POSITION p) \<le> 15"
  using unat_GET_Y_less [of p] by linarith

lemma engine_inv_fire_projectile:
  assumes "engine_inv MAX_PROJECTILES MAX_ASTEROIDS s"
  shows "engine_inv MAX_PROJECTILES MAX_ASTEROIDS (snd (fire_projectile MAX_PROJECTILES s))"
proof (cases "sint (numProjectiles s) < uint MAX_PROJECTILES
    \<and> projectile_at (basePosition s) 2 s = - 1")
  case False
  then show ?thesis
    using assms by (auto simp: fire_projectile_def)
next
  case True
  have wf: "well_formed MAX_PROJECTILES MAX_ASTEROIDS s"
    using assms by (simp add: engine_inv_def)
  note w = well_formedD [OF wf]
  let ?c = "GAME_POSITION (basePosition s) 2"
  let ?s2 = "s\<lparr>numProjectiles := numProjectiles s + 1,
      projectiles := (projectiles s)[unat (numProjectiles s) := ?c]\<rparr>"
  have free: "?c \<notin> set (live_projectiles s)"
    using True position_at_absent [OF w(1), of ?c]
    by (simp add: projectile_at_def live_projectiles_def)
  have "sint (numProjectiles s) < 127"
    using True w(7) by linarith
  then have suc: "sint (numProjectiles s + 1) = sint (numProjectiles s) + 1"
    by (rule w8_sint_plus1)
  have n: "unat (numProjectiles s) = nat (sint (numProjectiles s))"
    by (rule w8_unat_nat_sint [OF w(3)])
  have "int (length (projectiles s)) = uint MAX_PROJECTILES"
    using w(9) by simp
  then have inside: "nat (sint (numProjectiles s)) < length (projectiles s)"
    using True w(3) by linarith
  have "nat (sint (numProjectiles s) + 1) = Suc (nat (sint (numProjectiles s)))"
    using w(3) by linarith
  then have live: "live_projectiles ?s2 = live_projectiles s @ [?c]"
    using inside unfolding live_projectiles_def
    by (simp add: suc n take_Suc_conv_app_nth)
  have "well_formed MAX_PROJECTILES MAX_ASTEROIDS ?s2"
    using wf True suc unfolding well_formed_def by simp
  moreover have "live_asteroids ?s2 = live_asteroids s"
    by (simp add: live_asteroids_def)
  ultimately have "engine_inv MAX_PROJECTILES MAX_ASTEROIDS ?s2"
    using assms free live by (simp add: engine_inv_def no_shared_cell_def asteroids_sorted_def)
  from engine_inv_check_asteroid_hit [OF this] show ?thesis
    using True by (simp add: fire_projectile_def Let_def split_beta)
qed

lemma spawn_cell_row:
  "unat (GET_Y_POSITION (spawn_cell (of_nat (FIELD_HEIGHT - 1)) s k)) = 15"
  by (simp add: spawn_cell_def GET_Y_GAME_POSITION FIELD_HEIGHT_def unat_and_15)

lemma engine_inv_add_asteroid_top_row:
  assumes "engine_inv MAX_PROJECTILES MAX_ASTEROIDS s"
  shows "engine_inv MAX_PROJECTILES MAX_ASTEROIDS
    (add_asteroid_in_rows MAX_ASTEROIDS (of_nat (FIELD_HEIGHT - 1)) s)"
proof -
  let ?b = "of_nat (FIELD_HEIGHT - 1) :: uint8_t"
  let ?s = "add_asteroid_in_rows MAX_ASTEROIDS ?b s"
  have wf: "well_formed MAX_PROJECTILES MAX_ASTEROIDS s"
    using assms by (simp add: engine_inv_def)
  have wf': "well_formed MAX_PROJECTILES MAX_ASTEROIDS ?s"
    by (rule add_asteroid_in_rows_well_formed [OF wf])
  show ?thesis
  proof (rule add_asteroid_in_rows_cases [OF wf, of ?b])
    assume "live_asteroids ?s = live_asteroids s"
    then show ?thesis
      using assms wf' by (simp add: engine_inv_def no_shared_cell_def asteroids_sorted_def)
  next
    fix k
    assume free: "spawn_cell ?b s k \<notin> set (live_asteroids s)"
      and live: "live_asteroids ?s = live_asteroids s @ [spawn_cell ?b s k]"
    have top: "\<forall>p\<in>set (live_asteroids s).
        unat (GET_Y_POSITION p) \<le> unat (GET_Y_POSITION (spawn_cell ?b s k))"
      unfolding spawn_cell_row using unat_GET_Y_le by blast
    have "sorted (map (\<lambda>p. unat (GET_Y_POSITION p)) (live_asteroids s))"
      using assms by (simp add: engine_inv_def asteroids_sorted_def)
    then have "sorted (map (\<lambda>p. unat (GET_Y_POSITION p)) (live_asteroids s @ [spawn_cell ?b s k]))"
      using top by (simp add: sorted_append del: One_nat_def)
    then show ?thesis
      using assms wf' free live by (simp add: engine_inv_def no_shared_cell_def asteroids_sorted_def)
  qed
qed

lemma engine_inv_add_missing_asteroids_loop:
  "engine_inv MAX_PROJECTILES MAX_ASTEROIDS s
     \<Longrightarrow> engine_inv MAX_PROJECTILES MAX_ASTEROIDS (add_missing_asteroids_loop MAX_ASTEROIDS i s)"
proof (induction MAX_ASTEROIDS i s rule: add_missing_asteroids_loop.induct)
  case (1 MAX_ASTEROIDS i s)
  show ?case
  proof (cases "i < MAX_ASTEROIDS")
    case True
    from "1.IH" [OF True engine_inv_add_asteroid_top_row [OF "1.prems"]] show ?thesis
      using True by (subst add_missing_asteroids_loop.simps) simp
  next
    case False
    then show ?thesis
      using "1.prems" by (subst add_missing_asteroids_loop.simps) simp
  qed
qed

lemma engine_inv_add_missing_asteroids:
  "engine_inv MAX_PROJECTILES MAX_ASTEROIDS s
     \<Longrightarrow> engine_inv MAX_PROJECTILES MAX_ASTEROIDS (add_missing_asteroids MAX_ASTEROIDS s)"
  by (simp add: add_missing_asteroids_def engine_inv_add_missing_asteroids_loop)

lemma w8_and_15_small: "unat (y :: 8 word) < 16 \<Longrightarrow> y AND 15 = y"
  by (simp add: word_eq_iff_unsigned [where ?'a = nat] unat_and_15)

lemma GET_Y_row_up:
  assumes "unat (GET_Y_POSITION p) \<noteq> 15"
  shows "unat (GET_Y_POSITION (row_up p)) = Suc (unat (GET_Y_POSITION p))"
    and "GET_Y_POSITION (row_up p) = GET_Y_POSITION p + 1"
proof -
  show a: "unat (GET_Y_POSITION (row_up p)) = Suc (unat (GET_Y_POSITION p))"
    unfolding row_up_def by (rule GET_Y_up [OF assms])
  have "unat (GET_Y_POSITION p) < 15"
    using assms unat_GET_Y_less [of p] by linarith
  then have "unat (GET_Y_POSITION p + 1) = Suc (unat (GET_Y_POSITION p))"
    by (simp add: w8_unat_plus1)
  then show "GET_Y_POSITION (row_up p) = GET_Y_POSITION p + 1"
    using a by (simp add: word_eq_iff_unsigned [where ?'a = nat])
qed

lemma GET_Y_row_down:
  assumes "unat (GET_Y_POSITION p) \<noteq> 0"
  shows "unat (GET_Y_POSITION (row_down p)) = unat (GET_Y_POSITION p) - 1"
    and "GET_Y_POSITION (row_down p) = GET_Y_POSITION p - 1"
proof -
  show a: "unat (GET_Y_POSITION (row_down p)) = unat (GET_Y_POSITION p) - 1"
    unfolding row_down_def by (rule GET_Y_down [OF assms])
  have "unat (GET_Y_POSITION p - 1) = unat (GET_Y_POSITION p) - 1"
    using assms by (simp add: unat_minus_one unat_eq_zero)
  then show "GET_Y_POSITION (row_down p) = GET_Y_POSITION p - 1"
    using a by (simp add: word_eq_iff_unsigned [where ?'a = nat])
qed

lemma GET_X_row [simp]:
  "GET_X_POSITION (row_up p) = GET_X_POSITION p"
  "GET_X_POSITION (row_down p) = GET_X_POSITION p"
  by (simp_all add: row_up_def row_down_def)

lemma row_down_up: "unat (GET_Y_POSITION p) \<noteq> 15 \<Longrightarrow> row_down (row_up p) = p"
  by (rule position_eqI) (simp_all add: row_down_def GET_Y_GAME_POSITION GET_Y_row_up(2) GET_Y_and_15)

lemma row_up_down: "unat (GET_Y_POSITION p) \<noteq> 0 \<Longrightarrow> row_up (row_down p) = p"
  by (rule position_eqI) (simp_all add: row_up_def GET_Y_GAME_POSITION GET_Y_row_down(2) GET_Y_and_15)

lemma staged_0 [simp]: "staged g 0 xs = xs"
  by (simp add: staged_def)

lemma staged_all: "length xs \<le> k \<Longrightarrow> staged g k xs = map g xs"
  by (simp add: staged_def)

lemma length_staged [simp]: "length (staged g k xs) = length xs"
  by (simp add: staged_def)

lemma staged_remove:
  assumes "k < length xs"
  shows "staged g k (take k xs @ drop (Suc k) xs)
    = take k (staged g k xs) @ drop (Suc k) (staged g k xs)"
  using assms by (simp add: staged_def)

lemma staged_move:
  assumes "k < length xs" and "g (f (xs ! k)) = xs ! k"
  shows "staged g (Suc k) (xs[k := f (xs ! k)]) = staged g k xs"
proof -
  have "take (Suc k) (xs[k := f (xs ! k)]) = take k xs @ [f (xs ! k)]"
    using assms(1) by (simp add: take_Suc_conv_app_nth)
  moreover have "drop k xs = xs ! k # drop (Suc k) xs"
    using assms(1) by (simp add: Cons_nth_drop_Suc)
  ultimately show ?thesis
    using assms(2) by (simp add: staged_def)
qed

lemma engine_inv_split:
  "engine_inv mp ma s \<longleftrightarrow> asteroids_inv mp ma s \<and> projectiles_inv mp ma s"
  by (auto simp: engine_inv_def asteroids_inv_def projectiles_inv_def no_shared_cell_def)

lemma length_live:
  assumes "well_formed MAX_PROJECTILES MAX_ASTEROIDS s"
  shows "length (live_projectiles s) = nat (sint (numProjectiles s))"
    and "length (live_asteroids s) = nat (sint (numAsteroids s))"
  using well_formedD(1,2) [OF assms] by (simp_all add: live_projectiles_def live_asteroids_def)

lemma asteroids_inv_remove_asteroid:
  assumes "asteroids_inv MAX_PROJECTILES MAX_ASTEROIDS s"
  shows "asteroids_inv MAX_PROJECTILES MAX_ASTEROIDS (remove_asteroid i s)"
proof (cases "sint i < 0 \<or> sint (numAsteroids s) \<le> sint i")
  case True
  then show ?thesis
    using assms by (simp add: remove_asteroid_def)
next
  case False
  have wf: "well_formed MAX_PROJECTILES MAX_ASTEROIDS s"
    using assms by (simp add: asteroids_inv_def)
  from False live_asteroids_remove(1) [of i s] well_formedD(2) [OF wf]
  have live: "live_asteroids (remove_asteroid i s)
      = take (nat (sint i)) (live_asteroids s) @ drop (Suc (nat (sint i))) (live_asteroids s)"
    by simp
  have "distinct (live_asteroids (remove_asteroid i s))"
    unfolding live using assms
    by (intro distinct_remove_nth) (simp add: asteroids_inv_def)
  moreover have "asteroids_sorted (remove_asteroid i s)"
    using assms sorted_remove_nth
      [of "map (\<lambda>p. unat (GET_Y_POSITION p)) (live_asteroids s)" "nat (sint i)"]
    unfolding asteroids_sorted_def live asteroids_inv_def
    by (simp add: take_map drop_map)
  ultimately show ?thesis
    using well_formed_remove_asteroid [OF wf, of i]
    by (simp add: asteroids_inv_def)
qed

lemma asteroids_inv_remove_projectile:
  "asteroids_inv mp ma s \<Longrightarrow> asteroids_inv mp ma (remove_projectile i s)"
  by (simp add: asteroids_inv_def asteroids_sorted_def well_formed_remove_projectile)

lemma asteroids_inv_add_to_score [simp]:
  "asteroids_inv mp ma (add_to_score d s) = asteroids_inv mp ma s"
  by (simp add: asteroids_inv_def asteroids_sorted_def)

lemma asteroids_inv_projectiles_update:
  "asteroids_inv mp ma s \<Longrightarrow> asteroids_inv mp ma (s\<lparr>projectiles := (projectiles s)[k := v]\<rparr>)"
  by (simp add: asteroids_inv_def asteroids_sorted_def well_formed_def live_asteroids_def)

lemma live_projectiles_update:
  "live_projectiles (s\<lparr>projectiles := (projectiles s)[k := v]\<rparr>) = (live_projectiles s)[k := v]"
  by (simp add: live_projectiles_def take_update_swap)

lemma projectiles_staged_remove:
  assumes "well_formed MAX_PROJECTILES MAX_ASTEROIDS s" and "projectiles_staged pn s"
    and "sint pn < sint (numProjectiles s)"
  shows "projectiles_staged pn (remove_projectile pn s)"
proof -
  note w = well_formedD [OF assms(1)]
  let ?k = "nat (sint pn)" and ?L = "live_projectiles s"
  have pos: "0 \<le> sint pn"
    using assms(2) by (simp add: projectiles_staged_def)
  have k: "?k < length ?L"
    using pos assms(3) length_live(1) [OF assms(1)] by linarith
  have live: "live_projectiles (remove_projectile pn s) = take ?k ?L @ drop (Suc ?k) ?L"
    by (rule live_projectiles_remove(1) [OF pos assms(3) w(1)])
  have num: "sint (numProjectiles (remove_projectile pn s)) = sint (numProjectiles s) - 1"
    by (rule live_projectiles_remove(2) [OF pos assms(3) w(1)])
  have tk: "take ?k (take ?k ?L @ drop (Suc ?k) ?L) = take ?k ?L"
    using k by simp
  have "distinct (staged row_down ?k (take ?k ?L @ drop (Suc ?k) ?L))"
    unfolding staged_remove [OF k] using assms(2)
    by (intro distinct_remove_nth) (simp add: projectiles_staged_def)
  then show ?thesis
    using assms(2,3) pos unfolding projectiles_staged_def live num tk by simp
qed

lemma projectiles_staged_move:
  assumes "well_formed MAX_PROJECTILES MAX_ASTEROIDS s" and "projectiles_staged pn s"
    and "sint pn < sint (numProjectiles s)"
    and "unat (GET_Y_POSITION (projectiles s ! nat (sint pn)) + 1) \<noteq> FIELD_HEIGHT"
  shows "projectiles_staged (pn + 1) (s\<lparr>projectiles := (projectiles s)[nat (sint pn) :=
      GAME_POSITION (GET_X_POSITION (projectiles s ! nat (sint pn)))
        (GET_Y_POSITION (projectiles s ! nat (sint pn)) + 1)]\<rparr>)"
proof -
  let ?k = "nat (sint pn)" and ?L = "live_projectiles s"
  let ?p = "projectiles s ! ?k"
  have pos: "0 \<le> sint pn"
    using assms(2) by (simp add: projectiles_staged_def)
  have k: "?k < length ?L"
    using pos assms(3) length_live(1) [OF assms(1)] by linarith
  have p: "?L ! ?k = ?p"
    using k by (simp add: live_projectiles_def)
  have "sint pn < 127"
    using assms(3) w8_sint_le [of "numProjectiles s"] by linarith
  then have suc: "sint (pn + 1) = sint pn + 1"
    by (rule w8_sint_plus1)
  then have k1: "nat (sint (pn + 1)) = Suc ?k"
    using pos by linarith
  have y: "unat (GET_Y_POSITION ?p) \<noteq> 15"
  proof
    assume "unat (GET_Y_POSITION ?p) = 15"
    then have "unat (GET_Y_POSITION ?p + 1) = 16"
      by (simp add: w8_unat_plus1)
    then show False
      using assms(4) by (simp add: FIELD_HEIGHT_def)
  qed
  have up: "GAME_POSITION (GET_X_POSITION ?p) (GET_Y_POSITION ?p + 1) = row_up ?p"
    by (simp add: row_up_def)
  have st: "staged row_down (Suc ?k) (?L[?k := row_up (?L ! ?k)]) = staged row_down ?k ?L"
    using k row_down_up [OF y] p by (intro staged_move) simp_all
  have tk: "take (Suc ?k) (?L[?k := row_up ?p]) = take ?k ?L @ [row_up ?p]"
    using k by (simp add: take_Suc_conv_app_nth)
  have nz: "unat (GET_Y_POSITION (row_up ?p)) \<noteq> 0"
    using GET_Y_row_up(1) [OF y] by simp
  show ?thesis
    unfolding projectiles_staged_def live_projectiles_update up
  proof (intro conjI)
    show "0 \<le> sint (pn + 1)"
      using pos suc by simp
    show "sint (pn + 1) \<le> sint (numProjectiles (s\<lparr>projectiles := (projectiles s)[?k := row_up ?p]\<rparr>))"
      using suc assms(3) by simp
    show "\<forall>q\<in>set (take (nat (sint (pn + 1))) (?L[?k := row_up ?p])). unat (GET_Y_POSITION q) \<noteq> 0"
      unfolding k1 tk using assms(2) nz by (simp add: projectiles_staged_def)
    show "distinct (staged row_down (nat (sint (pn + 1))) (?L[?k := row_up ?p]))"
      unfolding k1 using st p assms(2) by (simp add: projectiles_staged_def)
  qed
qed

lemma projectiles_staged_done:
  assumes "well_formed MAX_PROJECTILES MAX_ASTEROIDS s" and "projectiles_staged pn s"
    and "\<not> sint pn < sint (numProjectiles s)"
  shows "distinct (live_projectiles s)"
proof -
  have "length (live_projectiles s) \<le> nat (sint pn)"
    using assms(2,3) length_live(1) [OF assms(1)] by (simp add: projectiles_staged_def)
  then have "staged row_down (nat (sint pn)) (live_projectiles s) = map row_down (live_projectiles s)"
    by (rule staged_all)
  then show ?thesis
    using assms(2) by (simp add: projectiles_staged_def distinct_map)
qed

lemma projectiles_staged_frame [simp]:
  "projectiles_staged pn (remove_asteroid a s) = projectiles_staged pn s"
  "projectiles_staged pn (add_to_score d s) = projectiles_staged pn s"
  by (simp_all add: projectiles_staged_def)

lemma asteroids_inv_well_formed:
  "asteroids_inv mp ma s \<Longrightarrow> well_formed mp ma s"
  by (simp add: asteroids_inv_def)

lemma advance_projectiles_loop_engine_inv:
  assumes "engine_inv MAX_PROJECTILES MAX_ASTEROIDS s"
  shows "\<exists>t. advance_projectiles_loop 0 s = Some t \<and> engine_inv MAX_PROJECTILES MAX_ASTEROIDS t"
proof -
  let ?I = "\<lambda>pn s. asteroids_inv MAX_PROJECTILES MAX_ASTEROIDS s \<and> projectiles_staged pn s"
  have "\<exists>pn' s'. advance_projectiles_loop 0 s = Some s' \<and> ?I pn' s'
      \<and> \<not> sint pn' < sint (numProjectiles s')"
  proof (rule advance_projectiles_loop_rule [where I = ?I])
    have "well_formed MAX_PROJECTILES MAX_ASTEROIDS s"
      using assms by (simp add: engine_inv_def)
    from well_formedD(3) [OF this] show "?I 0 s"
      using assms
      by (simp add: engine_inv_split projectiles_inv_def projectiles_staged_def)
  next
    fix pn s
    assume "?I pn s"
    then show "0 \<le> sint pn"
      by (simp add: projectiles_staged_def)
  next
    fix pn s
    assume a: "?I pn s" and b: "sint pn < sint (numProjectiles s)"
    then have wf: "well_formed MAX_PROJECTILES MAX_ASTEROIDS s"
      by (simp add: asteroids_inv_well_formed)
    from a projectiles_staged_remove [OF wf _ b] show "?I pn (remove_projectile pn s)"
      by (simp add: asteroids_inv_remove_projectile)
  next
    fix pn s
    assume a: "?I pn s" and b: "sint pn < sint (numProjectiles s)"
    then have wf: "well_formed MAX_PROJECTILES MAX_ASTEROIDS s"
      by (simp add: asteroids_inv_well_formed)
    from a projectiles_staged_remove [OF wf _ b]
    show "?I pn (add_to_score 1 (remove_asteroid
        (asteroid_at (GET_X_POSITION (projectiles s ! nat (sint pn)))
          (GET_Y_POSITION (projectiles s ! nat (sint pn)) + 1) s)
        (remove_projectile pn s)))"
      by (simp add: asteroids_inv_remove_projectile asteroids_inv_remove_asteroid)
  next
    fix pn s
    assume a: "?I pn s" and b: "sint pn < sint (numProjectiles s)"
      and c: "unat (GET_Y_POSITION (projectiles s ! nat (sint pn)) + 1) \<noteq> FIELD_HEIGHT"
    then have wf: "well_formed MAX_PROJECTILES MAX_ASTEROIDS s"
      by (simp add: asteroids_inv_well_formed)
    from a projectiles_staged_move [OF wf _ b c]
    show "?I (pn + 1) (s\<lparr>projectiles := (projectiles s)[nat (sint pn) :=
        GAME_POSITION (GET_X_POSITION (projectiles s ! nat (sint pn)))
          (GET_Y_POSITION (projectiles s ! nat (sint pn)) + 1)]\<rparr>)"
      by (simp add: asteroids_inv_projectiles_update)
  qed
  then obtain pn' t where t: "advance_projectiles_loop 0 s = Some t"
    "asteroids_inv MAX_PROJECTILES MAX_ASTEROIDS t" "projectiles_staged pn' t"
    "\<not> sint pn' < sint (numProjectiles t)"
    by blast
  have "distinct (live_projectiles t)"
    by (rule projectiles_staged_done [OF asteroids_inv_well_formed [OF t(2)] t(3,4)])
  then have "engine_inv MAX_PROJECTILES MAX_ASTEROIDS t"
    using t(2) by (simp add: engine_inv_split projectiles_inv_def asteroids_inv_def)
  then show ?thesis
    using t(1) by blast
qed

lemma engine_inv_advance_projectiles:
  assumes "engine_inv MAX_PROJECTILES MAX_ASTEROIDS s"
  shows "\<exists>s'. advance_projectiles MAX_ASTEROIDS s = Some s'
    \<and> engine_inv MAX_PROJECTILES MAX_ASTEROIDS s'"
proof -
  from advance_projectiles_loop_engine_inv [OF assms] obtain t
    where "advance_projectiles_loop 0 s = Some t" "engine_inv MAX_PROJECTILES MAX_ASTEROIDS t"
    by blast
  then show ?thesis
    by (simp add: advance_projectiles_def engine_inv_add_missing_asteroids)
qed

lemma projectiles_inv_remove_asteroid:
  "projectiles_inv mp ma s \<Longrightarrow> projectiles_inv mp ma (remove_asteroid i s)"
  by (simp add: projectiles_inv_def well_formed_remove_asteroid)

lemma projectiles_inv_remove_projectile:
  assumes "projectiles_inv MAX_PROJECTILES MAX_ASTEROIDS s"
  shows "projectiles_inv MAX_PROJECTILES MAX_ASTEROIDS (remove_projectile i s)"
proof (cases "sint i < 0 \<or> sint (numProjectiles s) \<le> sint i")
  case True
  then show ?thesis
    using assms by (simp add: remove_projectile_def)
next
  case False
  have wf: "well_formed MAX_PROJECTILES MAX_ASTEROIDS s"
    using assms by (simp add: projectiles_inv_def)
  from False live_projectiles_remove(1) [of i s] well_formedD(1) [OF wf]
  have live: "live_projectiles (remove_projectile i s)
      = take (nat (sint i)) (live_projectiles s) @ drop (Suc (nat (sint i))) (live_projectiles s)"
    by simp
  have "distinct (live_projectiles (remove_projectile i s))"
    unfolding live using assms
    by (intro distinct_remove_nth) (simp add: projectiles_inv_def)
  then show ?thesis
    using well_formed_remove_projectile [OF wf, of i]
    by (simp add: projectiles_inv_def)
qed

lemma projectiles_inv_add_to_score [simp]:
  "projectiles_inv mp ma (add_to_score d s) = projectiles_inv mp ma s"
  by (simp add: projectiles_inv_def)

lemma projectiles_inv_asteroids_update:
  "projectiles_inv mp ma s \<Longrightarrow> projectiles_inv mp ma (s\<lparr>asteroids := (asteroids s)[k := v]\<rparr>)"
  by (simp add: projectiles_inv_def well_formed_def live_projectiles_def)

lemma asteroids_staged_frame [simp]:
  "asteroids_staged i (remove_projectile a s) = asteroids_staged i s"
  "asteroids_staged i (add_to_score d s) = asteroids_staged i s"
  by (simp_all add: asteroids_staged_def)

lemma live_asteroids_update:
  "live_asteroids (s\<lparr>asteroids := (asteroids s)[k := v]\<rparr>) = (live_asteroids s)[k := v]"
  by (simp add: live_asteroids_def take_update_swap)

lemma asteroids_staged_remove:
  assumes "well_formed MAX_PROJECTILES MAX_ASTEROIDS s" and "asteroids_staged i s"
    and "uint i < sint (numAsteroids s)"
  shows "asteroids_staged i (remove_asteroid i s)"
proof -
  note w = well_formedD [OF assms(1)]
  note idx = w8_loop_index [OF assms(3)]
  let ?k = "unat i" and ?L = "live_asteroids s"
  let ?y = "\<lambda>p. unat (GET_Y_POSITION p)"
  have pos: "0 \<le> sint i" and lt: "sint i < sint (numAsteroids s)"
    using idx(4) assms(3) by simp_all
  have ki: "nat (sint i) = ?k"
    using idx(4) by simp
  have k: "?k < length ?L"
    using idx(5) length_live(2) [OF assms(1)] by linarith
  have live: "live_asteroids (remove_asteroid i s) = take ?k ?L @ drop (Suc ?k) ?L"
    using live_asteroids_remove(1) [OF pos lt w(2)] ki by simp
  have num: "sint (numAsteroids (remove_asteroid i s)) = sint (numAsteroids s) - 1"
    by (rule live_asteroids_remove(2) [OF pos lt w(2)])
  have tk: "take ?k (take ?k ?L @ drop (Suc ?k) ?L) = take ?k ?L"
    using k by simp
  have d: "distinct (staged row_up ?k (take ?k ?L @ drop (Suc ?k) ?L))"
    unfolding staged_remove [OF k] using assms(2)
    by (intro distinct_remove_nth) (simp add: asteroids_staged_def)
  have "sorted (take ?k (map ?y (staged row_up ?k ?L)) @ drop (Suc ?k) (map ?y (staged row_up ?k ?L)))"
    using assms(2) by (intro sorted_remove_nth) (simp add: asteroids_staged_def)
  then have "sorted (map ?y (staged row_up ?k (take ?k ?L @ drop (Suc ?k) ?L)))"
    unfolding staged_remove [OF k] by (simp add: take_map drop_map)
  then show ?thesis
    using assms(2,3) d unfolding asteroids_staged_def live num tk by simp
qed

lemma asteroids_staged_move:
  assumes "well_formed MAX_PROJECTILES MAX_ASTEROIDS s" and "asteroids_staged i s"
    and "uint i < sint (numAsteroids s)"
    and "\<not> sint (GET_Y_POSITION (asteroids s ! unat i) - 1) < 0"
  shows "asteroids_staged (i + 1) (s\<lparr>asteroids := (asteroids s)[unat i :=
      GAME_POSITION (GET_X_POSITION (asteroids s ! unat i))
        (GET_Y_POSITION (asteroids s ! unat i) - 1)]\<rparr>)"
proof -
  note idx = w8_loop_index [OF assms(3)]
  let ?k = "unat i" and ?L = "live_asteroids s"
  let ?p = "asteroids s ! ?k"
  have k: "?k < length ?L"
    using idx(5) length_live(2) [OF assms(1)] by linarith
  have p: "?L ! ?k = ?p"
    using k by (simp add: live_asteroids_def)
  have y: "unat (GET_Y_POSITION ?p) \<noteq> 0"
  proof
    assume "unat (GET_Y_POSITION ?p) = 0"
    then have "GET_Y_POSITION ?p = 0"
      by (simp add: unat_eq_zero)
    then show False
      using assms(4) by simp
  qed
  have down: "GAME_POSITION (GET_X_POSITION ?p) (GET_Y_POSITION ?p - 1) = row_down ?p"
    by (simp add: row_down_def)
  have st: "staged row_up (Suc ?k) (?L[?k := row_down (?L ! ?k)]) = staged row_up ?k ?L"
    using k row_up_down [OF y] p by (intro staged_move) simp_all
  have tk: "take (Suc ?k) (?L[?k := row_down ?p]) = take ?k ?L @ [row_down ?p]"
    using k by (simp add: take_Suc_conv_app_nth)
  have "unat (GET_Y_POSITION (row_down ?p)) = unat (GET_Y_POSITION ?p) - 1"
    by (rule GET_Y_row_down(1) [OF y])
  then have nt: "unat (GET_Y_POSITION (row_down ?p)) \<noteq> 15"
    using unat_GET_Y_less [of ?p] by linarith
  show ?thesis
    unfolding asteroids_staged_def live_asteroids_update down
  proof (intro conjI)
    show "uint (i + 1) \<le> sint (numAsteroids (s\<lparr>asteroids := (asteroids s)[?k := row_down ?p]\<rparr>))"
      using idx(2) assms(3) by simp
    show "\<forall>q\<in>set (take (unat (i + 1)) (?L[?k := row_down ?p])). unat (GET_Y_POSITION q) \<noteq> 15"
      unfolding idx(1) tk using assms(2) nt by (simp add: asteroids_staged_def)
    show "distinct (staged row_up (unat (i + 1)) (?L[?k := row_down ?p]))"
      unfolding idx(1) using st p assms(2) by (simp add: asteroids_staged_def)
    show "sorted (map (\<lambda>p. unat (GET_Y_POSITION p))
        (staged row_up (unat (i + 1)) (?L[?k := row_down ?p])))"
      unfolding idx(1) using st p assms(2) by (simp add: asteroids_staged_def)
  qed
qed

lemma asteroids_staged_done:
  assumes "well_formed MAX_PROJECTILES MAX_ASTEROIDS s" and "asteroids_staged i s"
    and "\<not> uint i < sint (numAsteroids s)"
  shows "distinct (live_asteroids s)" and "asteroids_sorted s"
proof -
  let ?L = "live_asteroids s"
  have "int (unat i) = sint (numAsteroids s)"
    using assms(2,3) by (simp add: asteroids_staged_def)
  then have len: "length ?L \<le> unat i"
    using length_live(2) [OF assms(1)] by linarith
  then have st: "staged row_up (unat i) ?L = map row_up ?L"
    by (rule staged_all)
  show "distinct ?L"
    using assms(2) st by (simp add: asteroids_staged_def distinct_map)
  have rows: "\<forall>q\<in>set ?L. unat (GET_Y_POSITION q) \<noteq> 15"
    using assms(2) len by (simp add: asteroids_staged_def)
  have e: "map (\<lambda>p. unat (GET_Y_POSITION p)) (map row_up ?L)
      = map (\<lambda>p. Suc (unat (GET_Y_POSITION p))) ?L"
    using rows by (simp add: GET_Y_row_up(1))
  have "sorted (map (\<lambda>p. unat (GET_Y_POSITION p)) (staged row_up (unat i) ?L))"
    using assms(2) by (simp add: asteroids_staged_def)
  then have "sorted (map (\<lambda>p. Suc (unat (GET_Y_POSITION p))) ?L)"
    unfolding st e .
  then show "asteroids_sorted s"
    by (simp add: asteroids_sorted_def sorted_map)
qed

lemma projectiles_inv_well_formed:
  "projectiles_inv mp ma s \<Longrightarrow> well_formed mp ma s"
  by (simp add: projectiles_inv_def)

lemma advance_asteroids_loop_engine_inv:
  assumes "engine_inv MAX_PROJECTILES MAX_ASTEROIDS s"
  shows "\<exists>t. advance_asteroids_loop 0 s = Some t \<and> engine_inv MAX_PROJECTILES MAX_ASTEROIDS t"
proof -
  let ?I = "\<lambda>i s. projectiles_inv MAX_PROJECTILES MAX_ASTEROIDS s \<and> asteroids_staged i s"
  have "\<exists>i' s'. advance_asteroids_loop 0 s = Some s' \<and> ?I i' s'
      \<and> \<not> uint i' < sint (numAsteroids s')"
  proof (rule advance_asteroids_loop_rule [where I = ?I])
    have "well_formed MAX_PROJECTILES MAX_ASTEROIDS s"
      using assms by (simp add: engine_inv_def)
    from well_formedD(4) [OF this] show "?I 0 s"
      using assms
      by (simp add: engine_inv_split projectiles_inv_def asteroids_inv_def asteroids_staged_def
          asteroids_sorted_def)
  next
    fix i :: uint8_t and s :: game
    assume a: "?I i s" and b: "uint i < sint (numAsteroids s)"
    then have wf: "well_formed MAX_PROJECTILES MAX_ASTEROIDS s"
      by (simp add: projectiles_inv_well_formed)
    from a asteroids_staged_remove [OF wf _ b] show "?I i (remove_asteroid i s)"
      by (simp add: projectiles_inv_remove_asteroid)
  next
    fix i :: uint8_t and s :: game
    let ?pj = "projectile_at (GET_X_POSITION (asteroids s ! unat i))
        (GET_Y_POSITION (asteroids s ! unat i) - 1) s"
    assume a: "?I i s" and b: "uint i < sint (numAsteroids s)"
    then have p: "projectiles_inv MAX_PROJECTILES MAX_ASTEROIDS (remove_projectile ?pj s)"
      by (simp add: projectiles_inv_remove_projectile)
    have wf: "well_formed MAX_PROJECTILES MAX_ASTEROIDS (remove_projectile ?pj s)"
      by (rule projectiles_inv_well_formed [OF p])
    have "asteroids_staged i (remove_asteroid i (remove_projectile ?pj s))"
      using a b by (intro asteroids_staged_remove [OF wf]) simp_all
    then show "?I i (add_to_score 1 (remove_asteroid i (remove_projectile ?pj s)))"
      using p by (simp add: projectiles_inv_remove_asteroid)
  next
    fix i :: uint8_t and s :: game
    assume a: "?I i s" and b: "uint i < sint (numAsteroids s)"
      and c: "\<not> sint (GET_Y_POSITION (asteroids s ! unat i) - 1) < 0"
    then have wf: "well_formed MAX_PROJECTILES MAX_ASTEROIDS s"
      by (simp add: projectiles_inv_well_formed)
    from a asteroids_staged_move [OF wf _ b c]
    show "?I (i + 1) (s\<lparr>asteroids := (asteroids s)[unat i :=
        GAME_POSITION (GET_X_POSITION (asteroids s ! unat i))
          (GET_Y_POSITION (asteroids s ! unat i) - 1)]\<rparr>)"
      by (simp add: projectiles_inv_asteroids_update)
  qed
  then obtain i' t where t: "advance_asteroids_loop 0 s = Some t"
    "projectiles_inv MAX_PROJECTILES MAX_ASTEROIDS t" "asteroids_staged i' t"
    "\<not> uint i' < sint (numAsteroids t)"
    by blast
  note fin = asteroids_staged_done [OF projectiles_inv_well_formed [OF t(2)] t(3,4)]
  have "engine_inv MAX_PROJECTILES MAX_ASTEROIDS t"
    using t(2) fin by (simp add: engine_inv_split projectiles_inv_def asteroids_inv_def)
  then show ?thesis
    using t(1) by blast
qed

lemma engine_inv_advance_asteroids:
  assumes "engine_inv MAX_PROJECTILES MAX_ASTEROIDS s"
    and "advance_asteroids MAX_ASTEROIDS s = Some s'"
  shows "engine_inv MAX_PROJECTILES MAX_ASTEROIDS s'"
proof -
  from advance_asteroids_loop_engine_inv [OF assms(1)] obtain t
    where t: "advance_asteroids_loop 0 s = Some t" "engine_inv MAX_PROJECTILES MAX_ASTEROIDS t"
    by blast
  let ?u = "add_missing_asteroids MAX_ASTEROIDS (check_all_base_hits t)"
  have "redraw_base ?u = Some s'"
    using assms(2) t(1) by (simp add: advance_asteroids_def)
  then have "s' = ?u"
    by (rule redraw_base_same)
  then show ?thesis
    using t(2) by (simp add: engine_inv_add_missing_asteroids engine_inv_check_all_base_hits)
qed

lemma sort_asteroids_inner_shifts:
  assumes "unat j = length xs"
  shows "\<exists>us vs h'. sort_asteroids_inner j temp (xs @ h # zs) = (of_nat (length us), us @ h' # vs @ zs)
      \<and> xs = us @ vs
      \<and> (\<forall>v\<in>set vs. unat (GET_Y_POSITION temp) < unat (GET_Y_POSITION v))
      \<and> (us = [] \<or> unat (GET_Y_POSITION (last us)) \<le> unat (GET_Y_POSITION temp))"
  using assms
proof (induction xs arbitrary: j h zs rule: rev_induct)
  case Nil
  then have "j = 0"
    by (simp add: unat_eq_zero)
  then have "sort_asteroids_inner j temp ([] @ h # zs) = (of_nat (length ([] :: uint8_t list)), [] @ h # [] @ zs)"
    by (subst sort_asteroids_inner.simps) simp
  then show ?case
    by (intro exI [of _ "[]"] exI [of _ h]) simp
next
  case (snoc x xs)
  have j: "unat j = Suc (length xs)"
    using snoc.prems by simp
  then have j0: "0 < j"
    by (simp add: word_less_nat_alt)
  have at: "(xs @ [x] @ h # zs) ! (unat j - 1) = x"
    using j by (simp add: nth_append)
  show ?case
  proof (cases "GET_Y_POSITION temp < GET_Y_POSITION x")
    case False
    then have "sort_asteroids_inner j temp ((xs @ [x]) @ h # zs)
        = (j, (xs @ [x]) @ h # [] @ zs)"
      using at by (subst sort_asteroids_inner.simps) simp
    moreover have "j = of_nat (length (xs @ [x]))"
      using j [symmetric] by simp
    moreover have "unat (GET_Y_POSITION x) \<le> unat (GET_Y_POSITION temp)"
      using False by (simp add: word_less_nat_alt)
    ultimately show ?thesis
      by (intro exI [of _ "xs @ [x]"] exI [of _ "[]"] exI [of _ h]) simp
  next
    case True
    have "j \<noteq> 0"
      using j by auto
    then have "unat (j - 1) = unat j - 1"
      by (rule unat_minus_one)
    then have j1: "unat (j - 1) = length xs"
      using j by simp
    have upd: "((xs @ [x]) @ h # zs)[unat j := x] = xs @ x # x # zs"
      using j by (simp add: list_update_append)
    from snoc.IH [OF j1, of x "x # zs"] obtain us vs h'
      where r: "sort_asteroids_inner (j - 1) temp (xs @ x # x # zs)
          = (of_nat (length us), us @ h' # vs @ x # zs)"
        and xs: "xs = us @ vs"
        and vs: "\<forall>v\<in>set vs. unat (GET_Y_POSITION temp) < unat (GET_Y_POSITION v)"
        and us: "us = [] \<or> unat (GET_Y_POSITION (last us)) \<le> unat (GET_Y_POSITION temp)"
      by blast
    have "sort_asteroids_inner j temp ((xs @ [x]) @ h # zs)
        = sort_asteroids_inner (j - 1) temp (xs @ x # x # zs)"
      using j0 True at upd by (subst sort_asteroids_inner.simps) simp
    then have "sort_asteroids_inner j temp ((xs @ [x]) @ h # zs)
        = (of_nat (length us), us @ h' # (vs @ [x]) @ zs)"
      using r by simp
    moreover have "\<forall>v\<in>set (vs @ [x]). unat (GET_Y_POSITION temp) < unat (GET_Y_POSITION v)"
      using vs True by (simp add: word_less_nat_alt)
    ultimately show ?thesis
      using xs us by (intro exI [of _ us] exI [of _ "vs @ [x]"] exI [of _ h']) simp
  qed
qed

lemma sorted_le_last:
  fixes ys :: "nat list"
  shows "sorted ys \<Longrightarrow> ys \<noteq> [] \<Longrightarrow> \<forall>u\<in>set ys. u \<le> last ys"
  by (induction ys) auto

lemma sort_asteroids_step:
  assumes "unat i = k" and "k < length arr"
    and "sorted (map (\<lambda>p. unat (GET_Y_POSITION p)) (take k arr))"
  shows "\<exists>us vs. take k arr = us @ vs
      \<and> (case sort_asteroids_inner i (arr ! k) arr of (j, arr') \<Rightarrow> arr'[unat j := arr ! k])
          = us @ arr ! k # vs @ drop (Suc k) arr
      \<and> sorted (map (\<lambda>p. unat (GET_Y_POSITION p)) (us @ arr ! k # vs))"
proof -
  let ?y = "\<lambda>p. unat (GET_Y_POSITION p)"
  let ?xs = "take k arr" and ?t = "arr ! k" and ?zs = "drop (Suc k) arr"
  have arr: "arr = ?xs @ ?t # ?zs"
    using assms(2) by (rule id_take_nth_drop)
  have len: "unat i = length ?xs"
    using assms(1,2) by simp
  from sort_asteroids_inner_shifts [OF len, of ?t ?t ?zs] arr obtain us vs h'
    where r: "sort_asteroids_inner i ?t arr = (of_nat (length us), us @ h' # vs @ ?zs)"
      and xs: "?xs = us @ vs"
      and vs: "\<forall>v\<in>set vs. ?y ?t < ?y v"
      and us: "us = [] \<or> ?y (last us) \<le> ?y ?t"
    by auto
  have "length us \<le> k"
  proof -
    have "length (take k arr) = k"
      using assms(2) by simp
    then show ?thesis
      unfolding xs by simp
  qed
  moreover have "k < 256"
    using assms(1) unsigned_less [of i, where ?'a = nat] by simp
  ultimately have "length us < 256"
    by simp
  then have u: "unat (of_nat (length us) :: 8 word) = length us"
    by (simp add: unat_of_nat)
  have res: "(case sort_asteroids_inner i ?t arr of (j, arr') \<Rightarrow> arr'[unat j := ?t])
      = us @ ?t # vs @ ?zs"
    unfolding r by (simp add: u list_update_append)
  have s: "sorted (map ?y (us @ vs))"
    using assms(3) xs by simp
  have "\<forall>u\<in>set us. ?y u \<le> ?y ?t"
  proof (cases "us = []")
    case True
    then show ?thesis by simp
  next
    case False
    then have l: "?y (last us) \<le> ?y ?t"
      using us by simp
    have "sorted (map ?y us)"
      using s by (simp add: sorted_append)
    then have "\<forall>u\<in>set (map ?y us). u \<le> last (map ?y us)"
      using False by (intro sorted_le_last) simp_all
    then have "\<forall>u\<in>set us. ?y u \<le> ?y (last us)"
      using False by (simp add: last_map)
    then show ?thesis
      using l by fastforce
  qed
  then have "sorted (map ?y (us @ ?t # vs))"
    using s vs by (auto simp: sorted_append less_imp_le)
  then show ?thesis
    using xs res by blast
qed

lemma sort_asteroids_loop_frame: "\<exists>arr. sort_asteroids_loop i s = s\<lparr>asteroids := arr\<rparr>"
proof (induction i s rule: sort_asteroids_loop.induct)
  case (1 i s)
  show ?case
  proof (cases "uint i < sint (numAsteroids s)")
    case False
    then have "sort_asteroids_loop i s = s\<lparr>asteroids := asteroids s\<rparr>"
      by (subst sort_asteroids_loop.simps) simp
    then show ?thesis
      by blast
  next
    case True
    obtain j arr' where r: "sort_asteroids_inner i (asteroids s ! unat i) (asteroids s) = (j, arr')"
      by (cases "sort_asteroids_inner i (asteroids s ! unat i) (asteroids s)")
    let ?s = "s\<lparr>asteroids := arr'[unat j := asteroids s ! unat i]\<rparr>"
    from "1.IH" [OF True refl refl r [symmetric]]
    obtain arr where "sort_asteroids_loop (i + 1) ?s = ?s\<lparr>asteroids := arr\<rparr>"
      by blast
    then have "sort_asteroids_loop i s = s\<lparr>asteroids := arr\<rparr>"
      using True r by (subst sort_asteroids_loop.simps) (simp add: Let_def)
    then show ?thesis
      by blast
  qed
qed

lemma sort_asteroids_loop_sorts:
  assumes "well_formed MAX_PROJECTILES MAX_ASTEROIDS s" and "distinct (live_asteroids s)"
    and "sorted (map (\<lambda>p. unat (GET_Y_POSITION p)) (take (unat i) (live_asteroids s)))"
  shows "well_formed MAX_PROJECTILES MAX_ASTEROIDS (sort_asteroids_loop i s)
    \<and> distinct (live_asteroids (sort_asteroids_loop i s))
    \<and> asteroids_sorted (sort_asteroids_loop i s)"
  using assms
proof (induction i s rule: sort_asteroids_loop.induct)
  case (1 i s)
  let ?y = "\<lambda>p. unat (GET_Y_POSITION p)"
  let ?n = "nat (sint (numAsteroids s))" and ?k = "unat i" and ?arr = "asteroids s"
  note w = well_formedD [OF "1.prems"(1)]
  show ?case
  proof (cases "uint i < sint (numAsteroids s)")
    case False
    then have "sint (numAsteroids s) \<le> int ?k"
      by simp
    then have "length (live_asteroids s) \<le> ?k"
      using length_live(2) [OF "1.prems"(1)] by linarith
    then have "take ?k (live_asteroids s) = live_asteroids s"
      by simp
    then have "asteroids_sorted s"
      using "1.prems"(3) by (simp add: asteroids_sorted_def)
    moreover have "sort_asteroids_loop i s = s"
      using False by (subst sort_asteroids_loop.simps) simp
    ultimately show ?thesis
      using "1.prems" by simp
  next
    case True
    note idx = w8_loop_index [OF True]
    have kn: "?k < ?n"
      using idx(5) by linarith
    then have kl: "?k < length ?arr"
      using w(2) by linarith
    have tk: "take ?k (live_asteroids s) = take ?k ?arr"
      using kn by (simp add: live_asteroids_def min_def)
    obtain j arr' where r: "sort_asteroids_inner i (?arr ! ?k) ?arr = (j, arr')"
      by (cases "sort_asteroids_inner i (?arr ! ?k) ?arr")
    let ?arr2 = "arr'[unat j := ?arr ! ?k]"
    let ?s = "s\<lparr>asteroids := ?arr2\<rparr>"
    from sort_asteroids_step [OF refl kl] "1.prems"(3) tk r obtain us vs
      where xs: "take ?k ?arr = us @ vs"
        and arr2: "?arr2 = us @ ?arr ! ?k # vs @ drop (Suc ?k) ?arr"
        and srt: "sorted (map ?y (us @ ?arr ! ?k # vs))"
      by auto
    have arr: "?arr = us @ vs @ ?arr ! ?k # drop (Suc ?k) ?arr"
      using id_take_nth_drop [OF kl] xs by simp
    have luv: "length us + length vs = ?k"
      using xs kl by (metis length_append length_take min.absorb2 less_imp_le)
    obtain m where m: "?n = Suc (length us + length vs) + m"
      using kn luv by (metis less_iff_Suc_add add_Suc)
    have live: "live_asteroids s = us @ vs @ ?arr ! ?k # take m (drop (Suc ?k) ?arr)"
      unfolding live_asteroids_def by (subst arr) (simp add: m)
    have live2: "live_asteroids ?s = us @ ?arr ! ?k # vs @ take m (drop (Suc ?k) ?arr)"
      unfolding live_asteroids_def by (simp add: arr2 m)
    have len: "length ?arr2 = length ?arr"
      unfolding arr2 by (subst (3) arr) simp
    have wf2: "well_formed MAX_PROJECTILES MAX_ASTEROIDS ?s"
      using "1.prems"(1) len by (simp add: well_formed_def)
    have d2: "distinct (live_asteroids ?s)"
      using "1.prems"(2) unfolding live live2 by auto
    have "live_asteroids ?s = (us @ ?arr ! ?k # vs) @ take m (drop (Suc ?k) ?arr)"
      using live2 by simp
    moreover have "unat (i + 1) = length (us @ ?arr ! ?k # vs)"
      using idx(1) luv by simp
    ultimately have "take (unat (i + 1)) (live_asteroids ?s) = us @ ?arr ! ?k # vs"
      by (metis append_eq_conv_conj)
    then have s2: "sorted (map ?y (take (unat (i + 1)) (live_asteroids ?s)))"
      using srt by simp
    have "sort_asteroids_loop i s = sort_asteroids_loop (i + 1) ?s"
      using True r by (subst sort_asteroids_loop.simps) (simp add: Let_def)
    then show ?thesis
      using "1.IH" [OF True refl refl r [symmetric] wf2 d2 s2] by simp
  qed
qed

lemma projectiles_inv_add_asteroid_in_rows:
  "projectiles_inv mp ma s \<Longrightarrow> projectiles_inv mp ma (add_asteroid_in_rows ma b s)"
  by (simp add: projectiles_inv_def add_asteroid_in_rows_well_formed)

lemma distinct_add_asteroid_in_rows:
  assumes "well_formed MAX_PROJECTILES MAX_ASTEROIDS s" and "distinct (live_asteroids s)"
  shows "distinct (live_asteroids (add_asteroid_in_rows MAX_ASTEROIDS b s))"
proof (rule add_asteroid_in_rows_cases [OF assms(1), of b])
  assume "live_asteroids (add_asteroid_in_rows MAX_ASTEROIDS b s) = live_asteroids s"
  then show ?thesis
    using assms(2) by simp
next
  fix k
  assume "spawn_cell b s k \<notin> set (live_asteroids s)"
    and "live_asteroids (add_asteroid_in_rows MAX_ASTEROIDS b s)
        = live_asteroids s @ [spawn_cell b s k]"
  then show ?thesis
    using assms(2) by simp
qed

lemma initialise_game_loop_inv:
  "projectiles_inv MAX_PROJECTILES MAX_ASTEROIDS s \<Longrightarrow> distinct (live_asteroids s)
     \<Longrightarrow> projectiles_inv MAX_PROJECTILES MAX_ASTEROIDS (initialise_game_loop MAX_ASTEROIDS i s)
       \<and> distinct (live_asteroids (initialise_game_loop MAX_ASTEROIDS i s))"
proof (induction MAX_ASTEROIDS i s rule: initialise_game_loop.induct)
  case (1 MAX_ASTEROIDS i s)
  show ?case
  proof (cases "i < MAX_ASTEROIDS")
    case True
    have "projectiles_inv MAX_PROJECTILES MAX_ASTEROIDS (add_asteroid MAX_ASTEROIDS s)"
      unfolding add_asteroid_def by (rule projectiles_inv_add_asteroid_in_rows [OF "1.prems"(1)])
    moreover have "distinct (live_asteroids (add_asteroid MAX_ASTEROIDS s))"
      unfolding add_asteroid_def
      by (rule distinct_add_asteroid_in_rows [OF projectiles_inv_well_formed [OF "1.prems"(1)]
            "1.prems"(2)])
    ultimately show ?thesis
      using "1.IH" [OF True] True by (subst (1 2) initialise_game_loop.simps) simp
  next
    case False
    then show ?thesis
      using "1.prems" by (subst (1 2) initialise_game_loop.simps) simp
  qed
qed

lemma engine_inv_sort_asteroids:
  assumes "projectiles_inv MAX_PROJECTILES MAX_ASTEROIDS s" and "distinct (live_asteroids s)"
  shows "engine_inv MAX_PROJECTILES MAX_ASTEROIDS (sort_asteroids s)"
proof -
  let ?y = "\<lambda>p. unat (GET_Y_POSITION p)"
  have wf: "well_formed MAX_PROJECTILES MAX_ASTEROIDS s"
    by (rule projectiles_inv_well_formed [OF assms(1)])
  have "length (take (unat (1 :: uint8_t)) (live_asteroids s)) \<le> 1"
    by simp
  then have "sorted (map ?y (take (unat (1 :: uint8_t)) (live_asteroids s)))"
    by (metis length_map sorted01)
  from sort_asteroids_loop_sorts [OF wf assms(2) this]
  have a: "well_formed MAX_PROJECTILES MAX_ASTEROIDS (sort_asteroids s)"
    "distinct (live_asteroids (sort_asteroids s))" "asteroids_sorted (sort_asteroids s)"
    by (simp_all add: sort_asteroids_def)
  obtain arr where "sort_asteroids s = s\<lparr>asteroids := arr\<rparr>"
    using sort_asteroids_loop_frame [of 1 s] by (auto simp: sort_asteroids_def)
  then have "live_projectiles (sort_asteroids s) = live_projectiles s"
    by (simp add: live_projectiles_def)
  then show ?thesis
    using a assms(1) by (simp add: engine_inv_def no_shared_cell_def projectiles_inv_def)
qed

lemma engine_inv_initialise_game:
  assumes "length (projectiles s) = unat MAX_PROJECTILES"
    and "length (asteroids s) = unat MAX_ASTEROIDS"
    and "uint MAX_PROJECTILES \<le> 127" and "uint MAX_ASTEROIDS \<le> 127"
  shows "engine_inv MAX_PROJECTILES MAX_ASTEROIDS (initialise_game MAX_ASTEROIDS s)"
proof -
  let ?s1 = "s\<lparr>basePosition := 3, numProjectiles := 0, numAsteroids := 0, paused := 0\<rparr>"
  have "projectiles_inv MAX_PROJECTILES MAX_ASTEROIDS ?s1"
    using assms by (simp add: projectiles_inv_def well_formed_def live_projectiles_def)
  moreover have "distinct (live_asteroids ?s1)"
    by (simp add: live_asteroids_def)
  ultimately have "projectiles_inv MAX_PROJECTILES MAX_ASTEROIDS
        (initialise_game_loop MAX_ASTEROIDS 0 ?s1)
      \<and> distinct (live_asteroids (initialise_game_loop MAX_ASTEROIDS 0 ?s1))"
    by (rule initialise_game_loop_inv)
  then show ?thesis
    by (simp add: initialise_game_def Let_def engine_inv_sort_asteroids)
qed

lemma engine_inv_set_paused [simp]:
  "engine_inv mp ma (set_paused p s) = engine_inv mp ma s"
  by (simp add: engine_inv_def no_shared_cell_def asteroids_sorted_def well_formed_def
      live_asteroids_def live_projectiles_def set_paused_def)

lemma reachable_engine_inv:
  "reachable MAX_PROJECTILES MAX_ASTEROIDS s \<Longrightarrow> engine_inv MAX_PROJECTILES MAX_ASTEROIDS s"
proof (induction rule: reachable.induct)
  case (init s)
  then show ?case
    by (rule engine_inv_initialise_game)
next
  case (move s direction)
  then show ?case
    by (simp add: engine_inv_move_base)
next
  case (fire s)
  then show ?case
    by (simp add: engine_inv_fire_projectile)
next
  case (projectiles s s')
  then show ?case
    using engine_inv_advance_projectiles [of MAX_PROJECTILES MAX_ASTEROIDS s] by auto
next
  case (asteroids s s')
  then show ?case
    using engine_inv_advance_asteroids [of MAX_PROJECTILES MAX_ASTEROIDS s] by auto
next
  case (pause s pause)
  then show ?case
    by simp
qed

text \<open>
  Every reachable state has the base in the field, so the calls of \<open>redraw_base\<close> that
  \<open>initialise_game\<close> and \<open>move_base\<close> make return.
\<close>

lemma initialise_game_loop_basePosition:
  "basePosition (initialise_game_loop m i s) = basePosition s"
proof (induction m i s rule: initialise_game_loop.induct)
  case (1 m i s)
  show ?case
    by (subst initialise_game_loop.simps) (use 1 in \<open>simp add: add_asteroid_def\<close>)
qed

lemma initialise_game_basePosition: "basePosition (initialise_game m s) = 3"
proof -
  obtain arr where "sort_asteroids (initialise_game_loop m 0
      (s\<lparr>basePosition := 3, numProjectiles := 0, numAsteroids := 0, paused := 0\<rparr>))
    = (initialise_game_loop m 0
      (s\<lparr>basePosition := 3, numProjectiles := 0, numAsteroids := 0, paused := 0\<rparr>))\<lparr>asteroids := arr\<rparr>"
    using sort_asteroids_loop_frame [of 1] by (auto simp: sort_asteroids_def)
  then show ?thesis
    by (simp add: initialise_game_def Let_def initialise_game_loop_basePosition)
qed

lemma reachable_base_in_field:
  "reachable MAX_PROJECTILES MAX_ASTEROIDS s
     \<Longrightarrow> 0 \<le> sint (basePosition s) \<and> sint (basePosition s) \<le> 7"
proof (induction rule: reachable.induct)
  case (init s)
  show ?case
    by (simp add: initialise_game_basePosition)
next
  case (move s direction)
  then show ?case
    using move_base_in_field [of s direction] by simp
next
  case (fire s)
  then show ?case
    by simp
next
  case (projectiles s s')
  then show ?case
    using advance_projectiles_basePosition [of MAX_ASTEROIDS s s'] by simp
next
  case (asteroids s s')
  then show ?case
    using advance_asteroids_basePosition [of MAX_ASTEROIDS s s'] by simp
next
  case (pause s pause)
  then show ?case
    by (simp add: set_paused_def)
qed

lemma initialise_game_redraw_returns:
  "redraw_base (initialise_game MAX_ASTEROIDS s) = Some (initialise_game MAX_ASTEROIDS s)"
  by (rule redraw_base_returns) (simp_all add: initialise_game_basePosition)

lemma move_base_redraw_returns:
  assumes "reachable MAX_PROJECTILES MAX_ASTEROIDS s"
    and "direction = MOVE_LEFT \<or> direction = MOVE_RIGHT"
  shows "redraw_base s = Some s"
    and "redraw_base (snd (move_base direction s)) = Some (snd (move_base direction s))"
proof -
  from reachable_base_in_field [OF assms(1)]
  have b: "0 \<le> sint (basePosition s)" "sint (basePosition s) \<le> 7"
    by simp_all
  show "redraw_base s = Some s"
    using b by (rule redraw_base_in_field)
  show "redraw_base (snd (move_base direction s)) = Some (snd (move_base direction s))"
    using move_base_in_field [OF b assms(2)] by (intro redraw_base_in_field) simp_all
qed

lemmas init_defs = initialise_game_def initialise_game_loop.simps add_asteroid_def
  sort_asteroids_def sort_asteroids_loop.simps sort_asteroids_inner.simps

lemma initialise_seeded:
  "initialise_game 4 scenario_seeded = scenario_seeded\<lparr>basePosition := 3, numProjectiles := 0,
     numAsteroids := 4, asteroids := [0x63, 0x05, 0x27, 0x49], paused := 0, rand_pos := 8\<rparr>"
  by (simp add: scenario_seeded_def init_defs eval_defs)

text \<open>
  C2. In every reachable state, that is after \<open>initialise_game\<close> and after every public
  operation that follows, the live asteroids are sorted by row, lowest first.
\<close>

theorem reachable_asteroids_sorted:
  "reachable MAX_PROJECTILES MAX_ASTEROIDS s \<Longrightarrow> asteroids_sorted s"
  using reachable_engine_inv [of MAX_PROJECTILES MAX_ASTEROIDS s] by (simp add: engine_inv_def)

theorem reachable_asteroids_sorted_witness:
  "live_asteroids (initialise_game 4 scenario_seeded) = [0x63, 0x05, 0x27, 0x49]
   \<and> asteroids_sorted (initialise_game 4 scenario_seeded)
   \<and> live_asteroids (the (advance_asteroids 4 (initialise_game 4 scenario_seeded)))
       = [0x62, 0x04, 0x26, 0x48]
   \<and> asteroids_sorted (the (advance_asteroids 4 (initialise_game 4 scenario_seeded)))"
proof -
  have r: "reachable 4 4 (initialise_game 4 scenario_seeded)"
    by (rule reachable.init) (simp_all add: scenario_seeded_def)
  have a: "advance_asteroids 4 (initialise_game 4 scenario_seeded)
      = Some (the (advance_asteroids 4 (initialise_game 4 scenario_seeded)))"
    unfolding initialise_seeded by (simp add: scenario_seeded_def eval_defs)
  have "live_asteroids (initialise_game 4 scenario_seeded) = [0x63, 0x05, 0x27, 0x49]"
    and "live_asteroids (the (advance_asteroids 4 (initialise_game 4 scenario_seeded)))
       = [0x62, 0x04, 0x26, 0x48]"
    unfolding initialise_seeded by (simp_all add: scenario_seeded_def eval_defs)
  then show ?thesis
    using reachable_asteroids_sorted [OF r]
      reachable_asteroids_sorted [OF reachable.asteroids [OF r a]]
    by simp
qed

text \<open>
  C4. In every reachable state no two live asteroids have the same packed position, and
  no two live projectiles have.
\<close>

theorem reachable_no_shared_cell:
  "reachable MAX_PROJECTILES MAX_ASTEROIDS s \<Longrightarrow> no_shared_cell s"
  using reachable_engine_inv [of MAX_PROJECTILES MAX_ASTEROIDS s] by (simp add: engine_inv_def)

theorem reachable_no_shared_cell_witness:
  "no_shared_cell (initialise_game 4 scenario_seeded)
   \<and> live_asteroids (initialise_game 4 scenario_seeded) = [0x63, 0x05, 0x27, 0x49]
   \<and> live_projectiles (initialise_game 4 scenario_seeded) = []
   \<and> no_shared_cell (snd (fire_projectile 4 (initialise_game 4 scenario_seeded)))
   \<and> live_projectiles (snd (fire_projectile 4 (initialise_game 4 scenario_seeded))) = [0x32]"
proof -
  have r: "reachable 4 4 (initialise_game 4 scenario_seeded)"
    by (rule reachable.init) (simp_all add: scenario_seeded_def)
  have "live_asteroids (initialise_game 4 scenario_seeded) = [0x63, 0x05, 0x27, 0x49]"
    and "live_projectiles (initialise_game 4 scenario_seeded) = []"
    and "live_projectiles (snd (fire_projectile 4 (initialise_game 4 scenario_seeded))) = [0x32]"
    unfolding initialise_seeded by (simp_all add: scenario_seeded_def eval_defs fire_projectile_def)
  then show ?thesis
    using reachable_no_shared_cell [OF r] reachable_no_shared_cell [OF reachable.fire [OF r]]
    by simp
qed

end
